theory Spec2Isabelle
  imports Complex_Main
begin

section \<open>Python strings\<close>

text \<open>
  A Python \<^verbatim>\<open>str\<close> is a sequence of Unicode code points. The normalizer builds
  characters with \<^verbatim>\<open>chr(int(hex4, 16))\<close>, up to U+FFFF, so a string is modelled as a
  list of code points (natural numbers) rather than of 8-bit characters. \<open>py\<close> turns
  an ASCII literal into such a list; backslash is 92, the double quote 34, the single
  quote 39.
\<close>

type_synonym cp = nat
type_synonym pystr = "cp list"

definition py :: "string \<Rightarrow> pystr" where
  "py s = map of_char s"

text \<open>\<^verbatim>\<open>str.isspace\<close> of one code point; the same set is \<^verbatim>\<open>\s\<close> in a \<^verbatim>\<open>str\<close> pattern.\<close>

definition isspace :: "cp \<Rightarrow> bool" where
  "isspace c \<longleftrightarrow>
     (9 \<le> c \<and> c \<le> 13) \<or> (28 \<le> c \<and> c \<le> 32) \<or> c = 133 \<or> c = 160 \<or> c = 5760 \<or>
     (8192 \<le> c \<and> c \<le> 8202) \<or> c = 8232 \<or> c = 8233 \<or> c = 8239 \<or> c = 8287 \<or> c = 12288"

definition strip :: "pystr \<Rightarrow> pystr" where
  "strip s = rev (dropWhile isspace (rev (dropWhile isspace s)))"

text \<open>
  \<^verbatim>\<open>str.lower\<close>. Only the ASCII letters are folded: the source reads the lowered string
  only through \<^verbatim>\<open>split("?")\<close>, \<^verbatim>\<open>endswith(".glb")\<close>, and no other code point has a
  lower-case form that contains one of the characters \<^verbatim>\<open>? . g l b\<close>.
\<close>

definition lower_cp :: "cp \<Rightarrow> cp" where
  "lower_cp c = (if 65 \<le> c \<and> c \<le> 90 then c + 32 else c)"

definition lower :: "pystr \<Rightarrow> pystr" where
  "lower s = map lower_cp s"

definition endswith :: "pystr \<Rightarrow> pystr \<Rightarrow> bool" where
  "endswith s x \<longleftrightarrow> take (length x) (rev s) = rev x"

definition startswith :: "pystr \<Rightarrow> pystr \<Rightarrow> bool" where
  "startswith s x \<longleftrightarrow> take (length x) s = x"

text \<open>\<^verbatim>\<open>s.split(sep)[0]\<close> for a one-character separator.\<close>

definition split_first :: "cp \<Rightarrow> pystr \<Rightarrow> pystr" where
  "split_first sep s = takeWhile (\<lambda>c. c \<noteq> sep) s"

text \<open>\<^verbatim>\<open>s.replace(old, new)\<close> for a non-empty \<open>old\<close>: left to right, without overlap.\<close>

fun replace :: "pystr \<Rightarrow> pystr \<Rightarrow> pystr \<Rightarrow> pystr" where
  "replace old new [] = []"
| "replace old new (c # cs) =
     (if old \<noteq> [] \<and> startswith (c # cs) old
      then new @ replace old new (drop (length old - 1) cs)
      else c # replace old new cs)"

section \<open>Exceptions\<close>

datatype exn =
    ValueError pystr    \<comment> \<open>raised by the source itself, and by \<^verbatim>\<open>int\<close>, \<^verbatim>\<open>chr\<close>, \<^verbatim>\<open>urlparse\<close>\<close>
  | RequestException pystr    \<comment> \<open>\<^verbatim>\<open>requests.get\<close>: timeout, connection error\<close>
  | HTTPError nat    \<comment> \<open>\<^verbatim>\<open>raise_for_status\<close>, with the status code\<close>
  | TypeError
  | OverflowError

text \<open>Sequencing of steps that may raise.\<close>

definition bind_exn :: "exn + 'a \<Rightarrow> ('a \<Rightarrow> exn + 'b) \<Rightarrow> exn + 'b" where
  "bind_exn x f = (case x of Inl e \<Rightarrow> Inl e | Inr v \<Rightarrow> f v)"

section \<open>Regular expressions (the \<^verbatim>\<open>re\<close> module)\<close>

text \<open>
  A backtracking matcher in continuation-passing style, with the constructs the
  source's patterns use: one character of a class, sequence, alternation, the greedy
  optional \<^verbatim>\<open>?\<close>, the lazy \<^verbatim>\<open>+?\<close> and the greedy \<^verbatim>\<open>+\<close> of a character class, the negative
  lookahead \<^verbatim>\<open>(?!...)\<close> and the capturing group (every pattern has at most one). The
  state is the rest of the subject and the text captured by group 1.
\<close>

datatype rx =
    Eps
  | Chr "cp \<Rightarrow> bool"
  | Seq rx rx
  | Alt rx rx
  | Opt rx
  | PlusLazy "cp \<Rightarrow> bool"
  | PlusGreedy "cp \<Rightarrow> bool"
  | NegLook rx
  | Grp rx

type_synonym mstate = "pystr \<times> pystr option"

fun plus_lazy :: "(cp \<Rightarrow> bool) \<Rightarrow> pystr \<Rightarrow> (pystr \<Rightarrow> mstate option) \<Rightarrow> mstate option" where
  "plus_lazy p [] k = None"
| "plus_lazy p (c # cs) k =
     (if p c then (case k cs of Some r \<Rightarrow> Some r | None \<Rightarrow> plus_lazy p cs k) else None)"

fun plus_greedy :: "(cp \<Rightarrow> bool) \<Rightarrow> pystr \<Rightarrow> (pystr \<Rightarrow> mstate option) \<Rightarrow> mstate option" where
  "plus_greedy p [] k = None"
| "plus_greedy p (c # cs) k =
     (if p c then (case plus_greedy p cs k of Some r \<Rightarrow> Some r | None \<Rightarrow> k cs) else None)"

fun rmatch :: "rx \<Rightarrow> mstate \<Rightarrow> (mstate \<Rightarrow> mstate option) \<Rightarrow> mstate option" where
  "rmatch Eps st k = k st"
| "rmatch (Chr p) (s, g) k =
     (case s of [] \<Rightarrow> None | c # cs \<Rightarrow> if p c then k (cs, g) else None)"
| "rmatch (Seq a b) st k = rmatch a st (\<lambda>st'. rmatch b st' k)"
| "rmatch (Alt a b) st k =
     (case rmatch a st k of Some r \<Rightarrow> Some r | None \<Rightarrow> rmatch b st k)"
| "rmatch (Opt a) st k =
     (case rmatch a st k of Some r \<Rightarrow> Some r | None \<Rightarrow> k st)"
| "rmatch (PlusLazy p) (s, g) k = plus_lazy p s (\<lambda>s'. k (s', g))"
| "rmatch (PlusGreedy p) (s, g) k = plus_greedy p s (\<lambda>s'. k (s', g))"
| "rmatch (NegLook a) st k =
     (case rmatch a st Some of Some r \<Rightarrow> None | None \<Rightarrow> k st)"
| "rmatch (Grp a) (s, g) k =
     rmatch a (s, g) (\<lambda>(s', g'). k (s', Some (take (length s - length s') s)))"

text \<open>
  An attempt at the start of \<open>s\<close>: the matched text, group 1 and the rest.
\<close>

definition match_at :: "rx \<Rightarrow> pystr \<Rightarrow> (pystr \<times> pystr option \<times> pystr) option" where
  "match_at r s =
     (case rmatch r (s, None) Some of
        None \<Rightarrow> None
      | Some (rest, g) \<Rightarrow> Some (take (length s - length rest) s, g, rest))"

text \<open>
  \<^verbatim>\<open>re.finditer\<close>: the matches from left to right, without overlap, each with its
  group 1. After a match of \<open>n\<close> characters the scan resumes \<open>n\<close> characters further.
  Every pattern of the source consumes at least one character; the special rule of
  \<^verbatim>\<open>re\<close> for empty matches is not modelled.
\<close>

fun finditer :: "rx \<Rightarrow> pystr \<Rightarrow> (pystr \<times> pystr option) list" where
  "finditer r [] = []"
| "finditer r (c # cs) =
     (case match_at r (c # cs) of
        None \<Rightarrow> finditer r cs
      | Some (m, g, rest) \<Rightarrow> (m, g) # finditer r (drop (length m - 1) cs))"

text \<open>\<^verbatim>\<open>re.findall\<close> of a pattern without a group: the matched texts.\<close>

definition findall0 :: "rx \<Rightarrow> pystr \<Rightarrow> pystr list" where
  "findall0 r s = map fst (finditer r s)"

text \<open>\<^verbatim>\<open>re.findall\<close> of a pattern with one group: the texts of the group.\<close>

definition findall1 :: "rx \<Rightarrow> pystr \<Rightarrow> pystr list" where
  "findall1 r s = map (\<lambda>(m, g). case g of None \<Rightarrow> [] | Some x \<Rightarrow> x) (finditer r s)"

text \<open>\<^verbatim>\<open>re.search\<close>: the first match, if any.\<close>

definition search :: "rx \<Rightarrow> pystr \<Rightarrow> (pystr \<times> pystr option) option" where
  "search r s = (case finditer r s of [] \<Rightarrow> None | x # xs \<Rightarrow> Some x)"

text \<open>\<^verbatim>\<open>re.sub(pattern, repl, s)\<close> with a function \<open>repl\<close> of the match.\<close>

fun re_sub :: "rx \<Rightarrow> (pystr \<times> pystr option \<Rightarrow> pystr) \<Rightarrow> pystr \<Rightarrow> pystr" where
  "re_sub r f [] = []"
| "re_sub r f (c # cs) =
     (case match_at r (c # cs) of
        None \<Rightarrow> c # re_sub r f cs
      | Some (m, g, rest) \<Rightarrow> f (m, g) @ re_sub r f (drop (length m - 1) cs))"

text \<open>
  A literal character. Under \<^verbatim>\<open>re.IGNORECASE\<close> a lower-case pattern letter also matches
  its capital and the code points \<^verbatim>\<open>re\<close> treats as its case variants: U+017F for
  \<^verbatim>\<open>s\<close>, U+0130 and U+0131 for \<^verbatim>\<open>i\<close>, U+212A for \<^verbatim>\<open>k\<close>.
\<close>

definition ci :: "cp \<Rightarrow> cp \<Rightarrow> bool" where
  "ci x c \<longleftrightarrow> c = x \<or> (97 \<le> x \<and> x \<le> 122 \<and> c + 32 = x) \<or> (x = 115 \<and> c = 383) \<or>
     (x = 105 \<and> (c = 304 \<or> c = 305)) \<or> (x = 107 \<and> c = 8490)"

fun lit :: "pystr \<Rightarrow> rx" where
  "lit [] = Eps"
| "lit (x # xs) = Seq (Chr (\<lambda>c. c = x)) (lit xs)"

fun lit_i :: "pystr \<Rightarrow> rx" where
  "lit_i [] = Eps"
| "lit_i (x # xs) = Seq (Chr (ci x)) (lit_i xs)"

text \<open>The counted repetition \<^verbatim>\<open>r{n}\<close>.\<close>

fun rep :: "nat \<Rightarrow> rx \<Rightarrow> rx" where
  "rep 0 r = Eps"
| "rep (Suc n) r = Seq r (rep n r)"

definition is_digit :: "cp \<Rightarrow> bool" where
  "is_digit c \<longleftrightarrow> 48 \<le> c \<and> c \<le> 57"

text \<open>\<^verbatim>\<open>[0-9a-fA-F]\<close>, which is also \<^verbatim>\<open>[0-9a-f]\<close> under \<^verbatim>\<open>re.IGNORECASE\<close>.\<close>

definition is_hex :: "cp \<Rightarrow> bool" where
  "is_hex c \<longleftrightarrow> is_digit c \<or> (97 \<le> c \<and> c \<le> 102) \<or> (65 \<le> c \<and> c \<le> 70)"

text \<open>\<^verbatim>\<open>[^\s"']\<close>, \<^verbatim>\<open>[^"']\<close> and \<^verbatim>\<open>["']\<close>.\<close>

definition not_space_quote :: "cp \<Rightarrow> bool" where
  "not_space_quote c \<longleftrightarrow> \<not> isspace c \<and> c \<noteq> 34 \<and> c \<noteq> 39"

definition not_quote :: "cp \<Rightarrow> bool" where
  "not_quote c \<longleftrightarrow> c \<noteq> 34 \<and> c \<noteq> 39"

definition is_quote :: "cp \<Rightarrow> bool" where
  "is_quote c \<longleftrightarrow> c = 34 \<or> c = 39"

section \<open>The environment: the network and library tables\<close>

text \<open>
  What the source reaches through libraries and cannot be computed from its own text:
  \<^item> \<open>requests_get\<close>: \<^verbatim>\<open>requests.get(page_url, timeout=30, headers=..., allow_redirects=True)\<close>,
    which raises (timeout, connection error) or returns a response. Its first argument is
    the number of requests the resolution has made before: the network may answer the
    second request differently from the first, also for the same URL;
  \<^item> \<open>urljoin\<close>: \<^verbatim>\<open>urllib.parse.urljoin\<close>;
  \<^item> \<open>charref_sub\<close>: the substitution of character references inside \<^verbatim>\<open>html.unescape\<close>,
    with its table of entities; it can raise (\<^verbatim>\<open>int\<close> refuses a decimal reference of
    more than 4300 digits);
  \<^item> \<open>netloc_ok\<close>: the checks of \<^verbatim>\<open>urlsplit\<close> that need library tables, on a network
    location with brackets or with a non-ASCII character (the address inside the
    brackets, the NFKC check).
\<close>

record response =
  status_code :: nat
  resp_url :: pystr
  resp_text :: pystr

record env =
  requests_get :: "nat \<Rightarrow> pystr \<Rightarrow> exn + response"
  urljoin :: "pystr \<Rightarrow> pystr \<Rightarrow> exn + pystr"
  charref_sub :: "pystr \<Rightarrow> exn + pystr"
  netloc_ok :: "pystr \<Rightarrow> bool"

text \<open>\<^verbatim>\<open>Response.raise_for_status\<close>: an error for a 4xx or a 5xx status.\<close>

definition raise_for_status :: "response \<Rightarrow> exn + unit" where
  "raise_for_status r =
     (if 400 \<le> status_code r \<and> status_code r < 600 then Inl (HTTPError (status_code r))
      else Inr ())"

section \<open>\<^verbatim>\<open>urllib.parse.urlparse\<close> and \<^verbatim>\<open>os.path.basename\<close>\<close>

record parse_result =
  scheme :: pystr
  netloc :: pystr
  path :: pystr
  params :: pystr
  query :: pystr
  fragment :: pystr

definition ascii_alpha :: "cp \<Rightarrow> bool" where
  "ascii_alpha c \<longleftrightarrow> (65 \<le> c \<and> c \<le> 90) \<or> (97 \<le> c \<and> c \<le> 122)"

definition scheme_char :: "cp \<Rightarrow> bool" where
  "scheme_char c \<longleftrightarrow> ascii_alpha c \<or> is_digit c \<or> c = 43 \<or> c = 45 \<or> c = 46"

text \<open>\<^verbatim>\<open>a, b = s.split(sep, 1)\<close> when \<open>sep\<close> occurs in \<open>s\<close>.\<close>

definition split_once :: "cp \<Rightarrow> pystr \<Rightarrow> pystr \<times> pystr" where
  "split_once sep s = (takeWhile (\<lambda>c. c \<noteq> sep) s, drop 1 (dropWhile (\<lambda>c. c \<noteq> sep) s))"

text \<open>
  The scheme: the text before the first colon, when it starts with an ASCII letter and
  holds only letters, digits, \<^verbatim>\<open>+\<close>, \<^verbatim>\<open>-\<close> and \<^verbatim>\<open>.\<close>; it is lowered.
\<close>

definition split_scheme :: "pystr \<Rightarrow> pystr \<times> pystr" where
  "split_scheme u =
     (let pre = takeWhile (\<lambda>c. c \<noteq> 58) u in
      if 58 \<in> set u \<and> pre \<noteq> [] \<and> ascii_alpha (hd pre) \<and> list_all scheme_char pre
      then (lower pre, drop (length pre + 1) u)
      else ([], u))"

text \<open>After \<^verbatim>\<open>//\<close> the network location runs to the first of \<^verbatim>\<open>/ ? #\<close>.\<close>

definition netloc_delim :: "cp \<Rightarrow> bool" where
  "netloc_delim c \<longleftrightarrow> c = 47 \<or> c = 63 \<or> c = 35"

definition split_netloc :: "pystr \<Rightarrow> pystr \<times> pystr" where
  "split_netloc u =
     (if startswith u [47, 47]
      then (takeWhile (\<lambda>c. \<not> netloc_delim c) (drop 2 u), dropWhile (\<lambda>c. \<not> netloc_delim c) (drop 2 u))
      else ([], u))"

text \<open>
  \<^verbatim>\<open>ValueError\<close> when exactly one of the two brackets occurs, or when a check on a
  bracketed or non-ASCII network location fails.
\<close>

definition check_netloc :: "env \<Rightarrow> pystr \<Rightarrow> bool" where
  "check_netloc env n \<longleftrightarrow>
     (91 \<in> set n \<longleftrightarrow> 93 \<in> set n) \<and>
     ((91 \<notin> set n \<and> list_all (\<lambda>c. c < 128) n) \<or> netloc_ok env n)"

text \<open>
  \<^verbatim>\<open>_splitparams\<close>: the parameters start at the first \<^verbatim>\<open>;\<close> of the last path segment.
\<close>

definition splitparams :: "pystr \<Rightarrow> pystr \<times> pystr" where
  "splitparams u =
     (if 47 \<in> set u
      then (let seg = rev (takeWhile (\<lambda>c. c \<noteq> 47) (rev u));
                dir = take (length u - length seg) u
            in if 59 \<in> set seg
               then (dir @ takeWhile (\<lambda>c. c \<noteq> 59) seg, drop 1 (dropWhile (\<lambda>c. c \<noteq> 59) seg))
               else (u, []))
      else split_once 59 u)"

definition uses_params :: "pystr list" where
  "uses_params = map py ['''', ''ftp'', ''hdl'', ''prospero'', ''http'', ''imap'', ''https'',
     ''shttp'', ''rtsp'', ''rtsps'', ''rtspu'', ''sip'', ''sips'', ''mms'', ''sftp'', ''tel'']"

text \<open>
  \<^verbatim>\<open>urlparse(url)\<close>: leading control characters and spaces are stripped, tabs and
  newlines removed; then the scheme, the network location, the fragment, the query
  and, for the schemes that have them, the parameters are split off in this order.
\<close>

definition urlparse :: "env \<Rightarrow> pystr \<Rightarrow> exn + parse_result" where
  "urlparse env url =
     (let u0 = filter (\<lambda>c. c \<noteq> 9 \<and> c \<noteq> 10 \<and> c \<noteq> 13) (dropWhile (\<lambda>c. c \<le> 32) url);
          (sch, u1) = split_scheme u0;
          (loc, u2) = split_netloc u1
      in if \<not> check_netloc env loc then Inl (ValueError (py ''Invalid URL''))
         else
           (let (u3, frag) = (if 35 \<in> set u2 then split_once 35 u2 else (u2, []));
                (u4, qry) = (if 63 \<in> set u3 then split_once 63 u3 else (u3, []));
                (u5, prm) = (if sch \<in> set uses_params \<and> 59 \<in> set u4 then splitparams u4 else (u4, []))
            in Inr \<lparr>scheme = sch, netloc = loc, path = u5, params = prm, query = qry,
                    fragment = frag\<rparr>))"

text \<open>\<^verbatim>\<open>os.path.basename\<close> (POSIX): what follows the last slash.\<close>

definition basename :: "pystr \<Rightarrow> pystr" where
  "basename p = rev (takeWhile (\<lambda>c. c \<noteq> 47) (rev p))"

section \<open>The helpers of the resolver\<close>

record Resolved =
  glb_url :: pystr
  filename :: pystr

definition is_url :: "env \<Rightarrow> pystr \<Rightarrow> bool" where
  "is_url env s =
     (case urlparse env s of
        Inl e \<Rightarrow> False
      | Inr u \<Rightarrow> (scheme u = py ''http'' \<or> scheme u = py ''https'') \<and> netloc u \<noteq> [])"

definition guess_filename_from_url :: "env \<Rightarrow> pystr \<Rightarrow> exn + pystr" where
  "guess_filename_from_url env url =
     bind_exn (urlparse env url) (\<lambda>u.
       let name = (if basename (path u) \<noteq> [] then basename (path u) else py ''model.glb'')
       in if \<not> endswith (lower name) (py ''.glb'')
          then (if 46 \<notin> set name then Inr (name @ py ''.glb'') else Inr name)
          else Inr name)"

text \<open>
  \<^verbatim>\<open>(v2-[0-9a-f]{8}(?:-[0-9a-f]{4}){3}-[0-9a-f]{12})\<close> with \<^verbatim>\<open>re.IGNORECASE\<close>.
\<close>

definition model_id_rx :: rx where
  "model_id_rx =
     Grp (Seq (lit_i (py ''v2-'')) (Seq (rep 8 (Chr is_hex))
       (Seq (rep 3 (Seq (lit_i (py ''-'')) (rep 4 (Chr is_hex))))
         (Seq (lit_i (py ''-'')) (rep 12 (Chr is_hex))))))"

definition extract_model_id :: "pystr \<Rightarrow> pystr option" where
  "extract_model_id text =
     (case search model_id_rx text of
        None \<Rightarrow> None
      | Some (m, g) \<Rightarrow> g)"

section \<open>The URL normalizer\<close>

text \<open>\<^verbatim>\<open>int(h, 16)\<close> on a string of hexadecimal digits, and \<^verbatim>\<open>chr\<close>.\<close>

definition hex_val :: "cp \<Rightarrow> nat" where
  "hex_val c = (if is_digit c then c - 48 else if 97 \<le> c \<and> c \<le> 102 then c - 87 else c - 55)"

definition py_int16 :: "pystr \<Rightarrow> exn + nat" where
  "py_int16 h =
     (if h \<noteq> [] \<and> list_all is_hex h then Inr (foldl (\<lambda>a c. 16 * a + hex_val c) 0 h)
      else Inl (ValueError (py ''invalid literal for int() with base 16'')))"

definition py_chr :: "nat \<Rightarrow> exn + cp" where
  "py_chr n = (if n < 1114112 then Inr n else Inl (ValueError (py ''chr() arg not in range(0x110000)'')))"

text \<open>
  \<^verbatim>\<open>_u_repl(m)\<close>: \<^verbatim>\<open>chr(int(m.group(1), 16))\<close>, and \<^verbatim>\<open>m.group(0)\<close> if that raises.
\<close>

definition u_repl :: "pystr \<times> pystr option \<Rightarrow> pystr" where
  "u_repl m =
     (case bind_exn (case snd m of None \<Rightarrow> Inl TypeError | Some h \<Rightarrow> py_int16 h) py_chr of
        Inl e \<Rightarrow> fst m
      | Inr c \<Rightarrow> [c])"

text \<open>
  The patterns \<^verbatim>\<open>\\\\u([0-9a-fA-F]{4})\<close> (two backslashes) and \<^verbatim>\<open>\\u([0-9a-fA-F]{4})\<close>
  (one backslash), without flags.
\<close>

definition uu_rx :: rx where
  "uu_rx = Seq (lit [92, 92, 117]) (Grp (rep 4 (Chr is_hex)))"

definition u_rx :: rx where
  "u_rx = Seq (lit [92, 117]) (Grp (rep 4 (Chr is_hex)))"

text \<open>
  \<^verbatim>\<open>html.unescape\<close> returns a string without an ampersand as it is, and substitutes the
  character references otherwise.
\<close>

definition html_unescape :: "env \<Rightarrow> pystr \<Rightarrow> exn + pystr" where
  "html_unescape env s = (if 38 \<notin> set s then Inr s else charref_sub env s)"

text \<open>The statements of \<^verbatim>\<open>_normalize_found_url\<close>, one definition each, in source order.\<close>

definition strip_trailing_backslash :: "pystr \<Rightarrow> pystr" where
  "strip_trailing_backslash s =
     (if endswith s [92] \<and> \<not> endswith s [92, 92] then butlast s else s)"

definition unescape_json :: "pystr \<Rightarrow> pystr" where
  "unescape_json s = replace [92, 34] [34] (replace [92, 47] [47] s)"

definition collapse_backslashes :: "pystr \<Rightarrow> pystr" where
  "collapse_backslashes s = replace [92, 92] [92] s"

definition decode_double_escaped :: "pystr \<Rightarrow> pystr" where
  "decode_double_escaped s = re_sub uu_rx u_repl s"

definition decode_single_escaped :: "pystr \<Rightarrow> pystr" where
  "decode_single_escaped s = re_sub u_rx u_repl s"

text \<open>\<^verbatim>\<open>try: s = html.unescape(s)\<close>, \<^verbatim>\<open>except Exception: pass\<close>.\<close>

definition unescape_entities :: "env \<Rightarrow> pystr \<Rightarrow> pystr" where
  "unescape_entities env s = (case html_unescape env s of Inl e \<Rightarrow> s | Inr t \<Rightarrow> t)"

text \<open>The body of the outer \<^verbatim>\<open>try\<close>.\<close>

definition normalize_steps :: "env \<Rightarrow> pystr \<Rightarrow> exn + pystr" where
  "normalize_steps env raw =
     (let s = strip raw;
          s = strip_trailing_backslash s;
          s = unescape_json s;
          s = collapse_backslashes s;
          s = decode_double_escaped s;
          s = decode_single_escaped s;
          s = unescape_entities env s;
          s = strip s
      in Inr s)"

text \<open>\<^verbatim>\<open>_normalize_found_url\<close>: the outer \<^verbatim>\<open>except Exception: return raw\<close>.\<close>

definition normalize_found_url :: "env \<Rightarrow> pystr \<Rightarrow> exn + pystr" where
  "normalize_found_url env raw =
     (case normalize_steps env raw of Inl e \<Rightarrow> Inr raw | Inr s \<Rightarrow> Inr s)"

section \<open>The resolver\<close>

text \<open>
  What the resolver does besides returning: the lines it passes to \<^verbatim>\<open>log\<close> and the
  pages it requests, in order.
\<close>

datatype event = Log pystr | Get pystr

text \<open>
  The three patterns of the page scan, all with \<^verbatim>\<open>re.IGNORECASE\<close>:
  \<^verbatim>\<open>https?://[^\s"']+?\.glb(?:\?[^\s"']+)?\<close>,
  \<^verbatim>\<open>(/[^\s"']+?\.glb(?:\?[^\s"']+)?)\<close> and
  \<^verbatim>\<open>(?:href|src)=["'](?!https?://)([^"']+?\.glb(?:\?[^"']+)?)["']\<close>.
\<close>

definition http_prefix_rx :: rx where
  "http_prefix_rx = Seq (lit_i (py ''http'')) (Seq (Opt (lit_i (py ''s''))) (lit_i (py ''://'')))"

definition glb_tail_rx :: "(cp \<Rightarrow> bool) \<Rightarrow> rx" where
  "glb_tail_rx cls =
     Seq (PlusLazy cls) (Seq (lit_i (py ''.glb'')) (Opt (Seq (lit_i (py ''?'')) (PlusGreedy cls))))"

definition abs_glb_rx :: rx where
  "abs_glb_rx = Seq http_prefix_rx (glb_tail_rx not_space_quote)"

definition root_glb_rx :: rx where
  "root_glb_rx = Grp (Seq (lit_i (py ''/'')) (glb_tail_rx not_space_quote))"

definition attr_glb_rx :: rx where
  "attr_glb_rx =
     Seq (Alt (lit_i (py ''href'')) (lit_i (py ''src'')))
       (Seq (lit_i (py ''='')) (Seq (Chr is_quote)
         (Seq (NegLook http_prefix_rx) (Seq (Grp (glb_tail_rx not_quote)) (Chr is_quote)))))"

text \<open>
  The end of each branch of the scan: normalize, log the change if there is one, return.
\<close>

definition return_normalized :: "env \<Rightarrow> event list \<Rightarrow> pystr \<Rightarrow> event list \<times> (exn + pystr option)" where
  "return_normalized env ev found =
     (case normalize_found_url env found of
        Inl e \<Rightarrow> (ev, Inl e)
      | Inr normed \<Rightarrow>
          (ev @ (if normed \<noteq> found
                 then [Log (py ''normalized url: '' @ found @ py '' -> '' @ normed)] else []),
           Inr (Some normed)))"

definition join_and_return :: "env \<Rightarrow> event list \<Rightarrow> response \<Rightarrow> pystr \<Rightarrow> event list \<times> (exn + pystr option)" where
  "join_and_return env ev r rel =
     (case urljoin env (resp_url r) rel of
        Inl e \<Rightarrow> (ev, Inl e)
      | Inr joined \<Rightarrow> return_normalized env ev joined)"

text \<open>
  \<^verbatim>\<open>scan_page_for_glb(page_url)\<close>, as request number \<open>n\<close> of the resolution, counted from 0.
\<close>

definition scan_page_for_glb :: "env \<Rightarrow> nat \<Rightarrow> pystr \<Rightarrow> event list \<times> (exn + pystr option)" where
  "scan_page_for_glb env n page_url =
     (let ev = [Log (py ''fetching page to look for a .glb link '' @ [8211, 32] @ page_url),
                Get page_url]
      in case bind_exn (requests_get env n page_url)
                (\<lambda>r. bind_exn (raise_for_status r) (\<lambda>u. Inr r)) of
           Inl e \<Rightarrow> (ev, Inl e)
         | Inr r \<Rightarrow>
             (let html = resp_text r in
              case findall0 abs_glb_rx html of
                c # cs \<Rightarrow> return_normalized env ev c
              | [] \<Rightarrow>
                  (case findall1 root_glb_rx html of
                     x # xs \<Rightarrow> join_and_return env ev r x
                   | [] \<Rightarrow>
                       (case findall1 attr_glb_rx html of
                          x # xs \<Rightarrow> join_and_return env ev r x
                        | [] \<Rightarrow> (ev, Inr None)))))"

definition guidance :: pystr where
  "guidance =
     py ''couldn'' @ [8217] @ py ''t find a direct .glb download link from what you pasted.'' @ [10] @
     py ''tip '' @ [8211] @ py '' in meshy, use the download/export option and copy the direct .glb link if available.''"

definition model_page :: "pystr \<Rightarrow> pystr" where
  "model_page model_id = py ''https://www.meshy.ai/3d-models/'' @ model_id"

text \<open>\<^verbatim>\<open>Resolved(glb_url=g, filename=_guess_filename_from_url(g))\<close>.\<close>

definition make_resolved :: "env \<Rightarrow> pystr \<Rightarrow> exn + Resolved" where
  "make_resolved env g =
     bind_exn (guess_filename_from_url env g) (\<lambda>f. Inr \<lparr>glb_url = g, filename = f\<rparr>)"

text \<open>The number of requests among the events.\<close>

definition requests_made :: "event list \<Rightarrow> nat" where
  "requests_made ev = length (filter (\<lambda>x. case x of Get u \<Rightarrow> True | Log l \<Rightarrow> False) ev)"

text \<open>
  Strategy 3 and the final \<^verbatim>\<open>raise ValueError\<close>; \<open>ev\<close> holds the events so far.
\<close>

definition from_model_id :: "env \<Rightarrow> pystr \<Rightarrow> event list \<Rightarrow> event list \<times> (exn + Resolved)" where
  "from_model_id env s ev =
     (case extract_model_id s of
        None \<Rightarrow> (ev, Inl (ValueError guidance))
      | Some model_id \<Rightarrow>
          if model_id = [] then (ev, Inl (ValueError guidance))
          else
            (case scan_page_for_glb env (requests_made ev) (model_page model_id) of
               (ev3, Inl e) \<Rightarrow> (ev @ ev3, Inl e)
             | (ev3, Inr None) \<Rightarrow> (ev @ ev3, Inl (ValueError guidance))
             | (ev3, Inr (Some glb)) \<Rightarrow>
                 if glb \<noteq> [] then (ev @ ev3, make_resolved env glb)
                 else (ev @ ev3, Inl (ValueError guidance))))"

definition resolve_to_glb_url :: "env \<Rightarrow> pystr \<Rightarrow> event list \<times> (exn + Resolved)" where
  "resolve_to_glb_url env user_input =
     (let s = strip user_input in
      if is_url env s \<and> endswith (split_first 63 (lower s)) (py ''.glb'')
      then ([], make_resolved env s)
      else if is_url env s
      then (case scan_page_for_glb env 0 s of
              (ev2, Inl e) \<Rightarrow> (ev2, Inl e)
            | (ev2, Inr None) \<Rightarrow> from_model_id env s ev2
            | (ev2, Inr (Some glb)) \<Rightarrow>
                if glb \<noteq> [] then (ev2, make_resolved env glb) else from_model_id env s ev2)
      else from_model_id env s [])"

section \<open>The downloader\<close>

subsection \<open>\<^verbatim>\<open>int(got * 100 / total)\<close>\<close>

text \<open>
  \<^verbatim>\<open>/\<close> on two Python integers is the true division: the quotient rounded to the
  nearest IEEE-754 double, ties to even. A non-negative double is modelled by its
  significand and exponent, \<open>m * 2 ^ e\<close>, with 53 bits of precision and the smallest
  exponent \<open>-1074\<close>; \<^verbatim>\<open>int\<close> of it truncates.
\<close>

fun bit_length :: "nat \<Rightarrow> nat" where
  "bit_length n = (if n = 0 then 0 else Suc (bit_length (n div 2)))"

declare bit_length.simps [simp del]

text \<open>The nearest integer to \<open>a / b\<close>, ties to even.\<close>

definition rne :: "nat \<Rightarrow> nat \<Rightarrow> nat" where
  "rne a b =
     (let q = a div b; r = a mod b
      in if 2 * r < b \<or> (2 * r = b \<and> even q) then q else q + 1)"

text \<open>The \<open>E\<close> with \<open>2 ^ E \<le> a / b < 2 ^ (E + 1)\<close>, for positive \<open>a\<close> and \<open>b\<close>.\<close>

definition floor_log2 :: "nat \<Rightarrow> nat \<Rightarrow> int" where
  "floor_log2 a b =
     (let d = int (bit_length a) - int (bit_length b)
      in if (if 0 \<le> d then b * 2 ^ nat d \<le> a else b \<le> a * 2 ^ nat (- d)) then d else d - 1)"

definition int_of_double :: "nat \<times> int \<Rightarrow> int" where
  "int_of_double x =
     (case x of (m, e) \<Rightarrow> if 0 \<le> e then int (m * 2 ^ nat e) else int (m div 2 ^ nat (- e)))"

definition true_div :: "nat \<Rightarrow> nat \<Rightarrow> exn + nat \<times> int" where
  "true_div a b =
     (if a = 0 then Inr (0, 0)
      else
        (let e = max (floor_log2 a b - 52) (- 1074);
             m = (if 0 \<le> e then rne a (b * 2 ^ nat e) else rne (a * 2 ^ nat (- e)) b)
         in if 2 ^ 1024 \<le> int_of_double (m, e) then Inl OverflowError else Inr (m, e)))"

text \<open>\<^verbatim>\<open>int(a / b)\<close> for \<open>a \<ge> 0\<close> and \<open>b > 0\<close>.\<close>

definition int_true_div :: "nat \<Rightarrow> nat \<Rightarrow> exn + int" where
  "int_true_div a b = bind_exn (true_div a b) (\<lambda>x. Inr (int_of_double x))"

subsection \<open>\<^verbatim>\<open>download_file\<close>\<close>

text \<open>
  The streamed response: its status, \<^verbatim>\<open>r.headers.get("content-length")\<close> as \<^verbatim>\<open>int\<close> reads
  it (\<open>None\<close> when the header is absent or empty, so that \<^verbatim>\<open>or 0\<close> applies; the error when
  \<^verbatim>\<open>int\<close> raises), and the chunks \<^verbatim>\<open>iter_content\<close> yields. Of the file system only the
  bytes written to the file are kept; creating the directory and opening the file are
  taken to succeed.
\<close>

type_synonym bytes = "nat list"

record stream_response =
  stream_status :: nat
  declared_length :: "(exn + int) option"
  chunks :: "bytes list"

record downloaded =
  progress :: "int list"    \<comment> \<open>the arguments of \<^verbatim>\<open>progress_cb\<close>, in order\<close>
  written :: bytes    \<comment> \<open>the content of the file\<close>
  logged :: "pystr list"

text \<open>
  The loop over the chunks: \<open>got\<close> is the count so far, the result the values reported.
\<close>

fun report_chunks :: "int \<Rightarrow> nat \<Rightarrow> bytes list \<Rightarrow> exn + int list" where
  "report_chunks total_len got [] = Inr []"
| "report_chunks total_len got (chunk # rest) =
     (if chunk = [] then report_chunks total_len got rest
      else
        bind_exn
          (if total_len > 0 then int_true_div ((got + length chunk) * 100) (nat total_len)
           else Inr (min 99 (int (((got + length chunk) div (1024 * 1024)) mod 100))))
          (\<lambda>pct. bind_exn (report_chunks total_len (got + length chunk) rest)
             (\<lambda>pcts. Inr (pct # pcts))))"

definition download_file :: "(pystr \<Rightarrow> exn + stream_response) \<Rightarrow> pystr \<Rightarrow> pystr \<Rightarrow> exn + downloaded" where
  "download_file get_stream url out_path =
     bind_exn (get_stream url) (\<lambda>r.
       if 400 \<le> stream_status r \<and> stream_status r < 600 then Inl (HTTPError (stream_status r))
       else
         bind_exn (case declared_length r of None \<Rightarrow> Inr 0 | Some n \<Rightarrow> n) (\<lambda>total_len.
           bind_exn (report_chunks total_len 0 (chunks r)) (\<lambda>pcts.
             Inr \<lparr>progress = pcts @ [100], written = concat (chunks r),
                  logged = [py ''saved '' @ [8211, 32] @ out_path]\<rparr>)))"

section \<open>Notions used to state the properties\<close>

subsection \<open>The normalizer\<close>

text \<open>
  The pipeline as the specification lists it, stages (1) to (7): the trailing
  backslash, the JSON escapes, the doubled backslashes, the two unicode decodings, the
  HTML entities, the final trim.
\<close>

definition spec_pipeline :: "env \<Rightarrow> pystr \<Rightarrow> pystr" where
  "spec_pipeline env raw =
     strip (unescape_entities env (decode_single_escaped (decode_double_escaped
       (collapse_backslashes (unescape_json (strip_trailing_backslash raw))))))"

text \<open>The value that reaches \<^verbatim>\<open>html.unescape\<close>.\<close>

definition before_entities :: "pystr \<Rightarrow> pystr" where
  "before_entities raw =
     decode_single_escaped (decode_double_escaped
       (collapse_backslashes (unescape_json (strip_trailing_backslash (strip raw)))))"

text \<open>Applying the normalizer to its own result.\<close>

definition normalize_twice :: "env \<Rightarrow> pystr \<Rightarrow> exn + pystr" where
  "normalize_twice env x = bind_exn (normalize_found_url env x) (normalize_found_url env)"

subsection \<open>The resolver\<close>

text \<open>The path component of the URL ends in \<^verbatim>\<open>.glb\<close>, in any case of the letters.\<close>

definition url_path_ends_glb :: "env \<Rightarrow> pystr \<Rightarrow> bool" where
  "url_path_ends_glb env s =
     (case urlparse env s of Inl e \<Rightarrow> False | Inr u \<Rightarrow> endswith (lower (path u)) (py ''.glb''))"

text \<open>
  The error of the page fetch that is request number \<open>n\<close>, if it fails: the transport's,
  or the status's.
\<close>

definition fetch_error :: "env \<Rightarrow> nat \<Rightarrow> pystr \<Rightarrow> exn option" where
  "fetch_error env n u =
     (case requests_get env n u of
        Inl e \<Rightarrow> Some e
      | Inr r \<Rightarrow> (case raise_for_status r of Inl e \<Rightarrow> Some e | Inr x \<Rightarrow> None))"

text \<open>What one page fetch logs and requests.\<close>

definition fetch_events :: "pystr \<Rightarrow> event list" where
  "fetch_events u = [Log (py ''fetching page to look for a .glb link '' @ [8211, 32] @ u), Get u]"

text \<open>The pages requested, in order.\<close>

definition requested :: "event list \<Rightarrow> pystr list" where
  "requested ev = concat (map (\<lambda>x. case x of Get u \<Rightarrow> [u] | Log l \<Rightarrow> []) ev)"

text \<open>
  A model identifier: \<^verbatim>\<open>v2-\<close> and five groups of 8, 4, 4, 4 and 12 hexadecimal digits
  separated by hyphens, in any case of the letters.
\<close>

definition id_template :: "(cp \<Rightarrow> bool) list" where
  "id_template =
     [ci 118, ci 50, ci 45] @ replicate 8 is_hex @ [ci 45] @ replicate 4 is_hex @ [ci 45] @
     replicate 4 is_hex @ [ci 45] @ replicate 4 is_hex @ [ci 45] @ replicate 12 is_hex"

text \<open>
  The character classes a pattern made of single characters matches one after the other.
\<close>

fun template :: "rx \<Rightarrow> (cp \<Rightarrow> bool) list option" where
  "template Eps = Some []"
| "template (Chr p) = Some [p]"
| "template (Seq a b) =
     (case template a of
        None \<Rightarrow> None
      | Some ps \<Rightarrow> (case template b of None \<Rightarrow> None | Some qs \<Rightarrow> Some (ps @ qs)))"
| "template r = None"

definition is_model_id :: "pystr \<Rightarrow> bool" where
  "is_model_id m \<longleftrightarrow> list_all2 (\<lambda>p c. p c) id_template m"

definition contains_model_id :: "pystr \<Rightarrow> bool" where
  "contains_model_id s \<longleftrightarrow> (\<exists>pre m post. s = pre @ m @ post \<and> is_model_id m)"

text \<open>The final segment of the path of a URL, and the name the resolver starts from.\<close>

definition base_name :: "parse_result \<Rightarrow> pystr" where
  "base_name u = (if basename (path u) = [] then py ''model.glb'' else basename (path u))"

subsection \<open>The downloader\<close>

text \<open>The byte count after each non-empty chunk.\<close>

fun received :: "nat \<Rightarrow> bytes list \<Rightarrow> nat list" where
  "received got [] = []"
| "received got (chunk # rest) =
     (if chunk = [] then received got rest
      else (got + length chunk) # received (got + length chunk) rest)"

definition floor_percent :: "nat \<Rightarrow> nat \<Rightarrow> int" where
  "floor_percent total_len got = int (got * 100 div total_len)"

subsection \<open>Test environments\<close>

text \<open>
  \<^verbatim>\<open>urljoin\<close> for an \<^verbatim>\<open>https\<close> base without query and a reference that is a path, rooted
  or relative.
\<close>

definition join_https :: "pystr \<Rightarrow> pystr \<Rightarrow> exn + pystr" where
  "join_https base ref =
     (let host = takeWhile (\<lambda>c. c \<noteq> 47) (drop 8 base);
          base_path = drop (8 + length host) base;
          dir = rev (dropWhile (\<lambda>c. c \<noteq> 47) (rev base_path))
      in if startswith ref [47] then Inr (take 8 base @ host @ ref)
         else Inr (take 8 base @ host @ dir @ ref))"

text \<open>
  No network: every request fails with a connection error. No character reference is
  decoded.
\<close>

definition offline :: env where
  "offline = \<lparr>requests_get = (\<lambda>n u. Inl (RequestException (py ''connection error''))),
     urljoin = join_https, charref_sub = Inr, netloc_ok = (\<lambda>n. True)\<rparr>"

text \<open>A server that answers every request with the status 304 and an empty body.\<close>

definition not_modified :: env where
  "not_modified = offline\<lparr>requests_get :=
     (\<lambda>n u. Inr \<lparr>status_code = 304, resp_url = u, resp_text = []\<rparr>)\<rparr>"

text \<open>An entity decoder that raises.\<close>

definition failing_unescape :: env where
  "failing_unescape = offline\<lparr>charref_sub :=
     (\<lambda>s. Inl (ValueError (py ''Exceeds the limit (4300 digits) for integer string conversion'')))\<rparr>"

text \<open>
  A page at \<^verbatim>\<open>https://example.com/gallery/page\<close> whose only link is
  \<^verbatim>\<open><a href="assets/model.glb">\<close>.
\<close>

definition gallery_html :: pystr where
  "gallery_html = py ''<a href='' @ [34] @ py ''assets/model.glb'' @ [34] @ py ''>model</a>''"

definition gallery :: env where
  "gallery = offline\<lparr>requests_get :=
       (\<lambda>n u. Inr \<lparr>status_code = 200, resp_url = py ''https://example.com/gallery/page'',
                  resp_text = gallery_html\<rparr>)\<rparr>"

text \<open>
  A page whose only link is a download script that takes the file name in the query:
  \<^verbatim>\<open><a href="https://cdn.example.com/get.php?f=chair.glb">\<close>.
\<close>

definition query_link_html :: pystr where
  "query_link_html =
     py ''<a href='' @ [34] @ py ''https://cdn.example.com/get.php?f=chair.glb'' @ [34] @ py ''>download</a>''"

definition query_link :: env where
  "query_link = offline\<lparr>requests_get :=
       (\<lambda>n u. Inr \<lparr>status_code = 200, resp_url = u, resp_text = query_link_html\<rparr>)\<rparr>"

text \<open>
  A share page without any link, reachable; every other page times out.
\<close>

definition share_url :: pystr where
  "share_url = py ''https://example.com/share/v2-019a7474-3f2a-7a7d-9282-cc5599095a44''"

definition share_only :: env where
  "share_only = offline\<lparr>requests_get :=
     (\<lambda>n u. if u = share_url
          then Inr \<lparr>status_code = 200, resp_url = u, resp_text = py ''<html></html>''\<rparr>
          else Inl (RequestException (py ''timed out'')))\<rparr>"

text \<open>
  A network that answers the first request with a page without any link and times
  out on every later one.
\<close>

definition first_only :: env where
  "first_only = offline\<lparr>requests_get :=
     (\<lambda>n u. if n = 0
          then Inr \<lparr>status_code = 200, resp_url = u, resp_text = py ''<html></html>''\<rparr>
          else Inl (RequestException (py ''timed out'')))\<rparr>"

text \<open>An entity decoder that knows the reference \<^verbatim>\<open>&amp;\<close> only.\<close>

definition amp_only :: env where
  "amp_only = offline\<lparr>charref_sub := (\<lambda>s. Inr (replace (py ''&amp;'') (py ''&'') s))\<rparr>"

text \<open>
  A response that declares \<open>10 ^ 17\<close> bytes and delivers them in chunks of 512 KiB, a rest
  of 131071 bytes and a last chunk of one byte.
\<close>

definition huge_download :: stream_response where
  "huge_download = \<lparr>stream_status = 200, declared_length = Some (Inr (10 ^ 17)),
     chunks = replicate 190734863281 (replicate 524288 0) @ [replicate 131071 0, [0]]\<rparr>"

section \<open>Properties of the downloader\<close>

subsection \<open>The double division is exact on small quotients\<close>

lemma bit_length_bounds: "0 < n \<Longrightarrow> 2 ^ (bit_length n - 1) \<le> n \<and> n < 2 ^ bit_length n"
proof (induction n rule: bit_length.induct)
  case (1 n)
  show ?case
  proof (cases "n div 2 = 0")
    case True
    with "1.prems" have "n = 1" by presburger
    then show ?thesis by (simp add: bit_length.simps)
  next
    case False
    then have pos: "0 < n div 2" by simp
    from "1.prems" have n0: "n \<noteq> 0" by simp
    from "1.IH"[OF n0 pos] have lo: "2 ^ (bit_length (n div 2) - 1) \<le> n div 2"
      and hi: "n div 2 < 2 ^ bit_length (n div 2)" by simp_all
    have bl: "bit_length n = Suc (bit_length (n div 2))"
      using n0 by (subst bit_length.simps) simp
    have blpos: "0 < bit_length (n div 2)"
      using pos by (subst bit_length.simps) simp
    then obtain j where j: "bit_length (n div 2) = Suc j" by (cases "bit_length (n div 2)") auto
    from lo j have "2 ^ j \<le> n div 2" by simp
    then have "2 * 2 ^ j \<le> n" by presburger
    moreover have "n < 2 * 2 ^ bit_length (n div 2)" using hi by presburger
    ultimately show ?thesis using bl j by simp
  qed
qed

lemma floor_log2_less:
  assumes "0 < a" "0 < b" "a < 2 ^ k * b"
  shows "floor_log2 a b < int k"
proof -
  let ?la = "bit_length a" and ?lb = "bit_length b"
  from bit_length_bounds[OF assms(1)] have a_lo: "2 ^ (?la - 1) \<le> a" by simp
  from bit_length_bounds[OF assms(2)] have b_hi: "b < 2 ^ ?lb" by simp
  have la_pos: "0 < ?la" using assms(1) by (subst bit_length.simps) simp
  have "2 ^ (?la - 1) < (2::nat) ^ k * 2 ^ ?lb"
    using a_lo assms(3) b_hi
    by (meson le_less_trans less_trans mult_less_cancel1 zero_less_numeral zero_less_power)
  then have "(2::nat) ^ (?la - 1) < 2 ^ (k + ?lb)" by (simp add: power_add)
  then have "?la - 1 < k + ?lb" by (simp add: power_strict_increasing_iff)
  then have d_le: "int ?la - int ?lb \<le> int k" using la_pos by linarith
  show ?thesis
  proof (cases "int ?la - int ?lb = int k")
    case False
    with d_le have "int ?la - int ?lb < int k" by simp
    then show ?thesis by (simp add: floor_log2_def Let_def)
  next
    case True
    then have "\<not> b * 2 ^ k \<le> a" using assms(3) by (simp add: mult.commute)
    with True show ?thesis by (simp add: floor_log2_def Let_def)
  qed
qed

lemma rne_ge: "0 < b \<Longrightarrow> n * b \<le> a \<Longrightarrow> n \<le> rne a b"
proof -
  assume b: "0 < b" and h: "n * b \<le> a"
  then have "n \<le> a div b" by (simp add: less_eq_div_iff_mult_less_eq)
  then show ?thesis by (simp add: rne_def Let_def)
qed

lemma rne_le: "0 < b \<Longrightarrow> a \<le> n * b \<Longrightarrow> rne a b \<le> n"
proof -
  assume b: "0 < b" and h: "a \<le> n * b"
  have q: "a div b \<le> n" using h b
    by (metis div_le_mono div_mult_self_is_m)
  show ?thesis
  proof (cases "a div b = n")
    case True
    have "a = b * (a div b) + a mod b" by simp
    with True h have "a mod b = 0"
      by (metis add_diff_cancel_left' diff_is_0_eq' mult.commute)
    then show ?thesis using True b by (simp add: rne_def Let_def)
  next
    case False
    with q have "a div b < n" by simp
    then show ?thesis by (simp add: rne_def Let_def)
  qed
qed

lemma int_true_div_exact:
  assumes b: "0 < b" "b \<le> 2 ^ 46" and a: "a < 128 * b"
  shows "int_true_div a b = Inr (int (a div b))"
proof (cases "a = 0")
  case True
  then show ?thesis by (simp add: int_true_div_def true_div_def bind_exn_def int_of_double_def)
next
  case False
  then have apos: "0 < a" by simp
  define e where "e = max (floor_log2 a b - 52) (- 1074)"
  define n where "n = nat (- e)"
  have "a < 2 ^ 7 * b" using a by simp
  from floor_log2_less[OF apos b(1) this] have "floor_log2 a b < 7" by simp
  then have e_neg: "e \<le> - 46" and e_lo: "- 1074 \<le> e" by (simp_all add: e_def)
  then have n46: "46 \<le> n" and en: "e = - int n" and n_hi: "n \<le> 1074" by (simp_all add: n_def)
  define m where "m = rne (a * 2 ^ n) b"
  define k where "k = a div b"
  have two_n: "b \<le> 2 ^ n"
    using b(2) n46 by (meson le_trans one_le_numeral power_increasing)
  have lo: "k * 2 ^ n \<le> m"
  proof -
    have "k * b \<le> a" by (simp add: k_def)
    then have "k * 2 ^ n * b \<le> a * 2 ^ n"
      by (metis mult.assoc mult.commute mult_le_mono1)
    from rne_ge[OF b(1) this] show ?thesis by (simp add: m_def)
  qed
  have hi: "m < (k + 1) * 2 ^ n"
  proof -
    have "a < (k + 1) * b" unfolding k_def using b(1)
      by (metis Suc_eq_plus1 dividend_less_div_times mult.commute mult_Suc)
    then have "a + 1 \<le> (k + 1) * b" by simp
    then have "(a + 1) * 2 ^ n \<le> (k + 1) * b * 2 ^ n" by (rule mult_le_mono1)
    then have "a * 2 ^ n + 2 ^ n \<le> (k + 1) * 2 ^ n * b" by (simp add: algebra_simps)
    with two_n have "a * 2 ^ n + b \<le> (k + 1) * 2 ^ n * b" by linarith
    moreover have one: "1 \<le> (k + 1) * 2 ^ n"
    proof -
      have "(1::nat) \<le> 2 ^ n" by simp
      then show ?thesis by (simp add: trans_le_add1)
    qed
    ultimately have "a * 2 ^ n \<le> ((k + 1) * 2 ^ n - 1) * b"
      by (simp add: diff_mult_distrib)
    from rne_le[OF b(1) this] have "m \<le> (k + 1) * 2 ^ n - 1" by (simp add: m_def)
    then show ?thesis using one by linarith
  qed
  have mdiv: "m div 2 ^ n = k"
    using lo hi by (metis div_nat_eqI mult.commute Suc_eq_plus1 mult_Suc)
  have k_small: "k < 128"
    unfolding k_def using a b(1) by (simp add: less_mult_imp_div_less)
  have no_ovf: "\<not> (2::int) ^ 1024 \<le> int k"
  proof -
    have "int k < 2 ^ 7" using k_small by simp
    also have "(2::int) ^ 7 \<le> 2 ^ 1024" by (rule power_increasing) simp_all
    finally show ?thesis by simp
  qed
  have td: "true_div a b = Inr (m, e)"
    using False e_neg no_ovf mdiv
    by (simp add: true_div_def Let_def e_def[symmetric] n_def[symmetric] m_def[symmetric] int_of_double_def)
  show ?thesis
    using td e_neg mdiv by (simp add: int_true_div_def bind_exn_def int_of_double_def n_def[symmetric] k_def)
qed

subsection \<open>Progress values\<close>

lemma report_chunks_pulse:
  "total_len \<le> 0 \<Longrightarrow>
   report_chunks total_len got cs =
     Inr (map (\<lambda>g. min 99 (int ((g div (1024 * 1024)) mod 100))) (received got cs))"
  by (induction cs arbitrary: got) (simp_all add: bind_exn_def)

lemma received_bounds:
  "g \<in> set (received got cs) \<Longrightarrow> got < g \<and> g \<le> got + length (concat cs)"
proof (induction cs arbitrary: got)
  case Nil
  then show ?case by simp
next
  case (Cons c cs)
  show ?case
  proof (cases "c = []")
    case True
    with Cons show ?thesis by simp
  next
    case False
    then have "0 < length c" by simp
    with Cons.prems False have "g = got + length c \<or> g \<in> set (received (got + length c) cs)"
      by simp
    then show ?thesis
    proof
      assume "g = got + length c"
      with False show ?thesis by simp
    next
      assume "g \<in> set (received (got + length c) cs)"
      from Cons.IH[OF this] \<open>0 < length c\<close> show ?thesis by simp
    qed
  qed
qed

lemma received_sorted: "sorted (received got cs)"
proof (induction cs arbitrary: got)
  case Nil
  then show ?case by simp
next
  case (Cons c cs)
  show ?case
  proof (cases "c = []")
    case True
    with Cons show ?thesis by simp
  next
    case False
    have "\<forall>g \<in> set (received (got + length c) cs). got + length c \<le> g"
      using received_bounds by (metis less_imp_le)
    with Cons.IH False show ?thesis by simp
  qed
qed

subsection \<open>The rounded quotient: bounds and monotonicity\<close>

lemma bit_length_pos: "0 < a \<Longrightarrow> 0 < bit_length a"
  by (subst bit_length.simps) simp

lemma bit_length_real:
  assumes "0 < a"
  shows "2 powr (real (bit_length a) - 1) \<le> real a" and "real a < 2 powr real (bit_length a)"
proof -
  from bit_length_bounds[OF assms] have lo: "2 ^ (bit_length a - 1) \<le> a" and hi: "a < 2 ^ bit_length a"
    by simp_all
  have "real (bit_length a - 1) = real (bit_length a) - 1"
    using bit_length_pos[OF assms] by (simp add: of_nat_diff)
  then have "2 powr (real (bit_length a) - 1) = 2 ^ (bit_length a - 1)"
    by (metis powr_realpow zero_less_numeral)
  also have "\<dots> \<le> real a" using lo by (metis of_nat_le_iff of_nat_numeral of_nat_power)
  finally show "2 powr (real (bit_length a) - 1) \<le> real a" .
  have "real a < 2 ^ bit_length a" using hi by (metis of_nat_less_iff of_nat_numeral of_nat_power)
  then show "real a < 2 powr real (bit_length a)" by (simp add: powr_realpow)
qed

lemma floor_log2_cond:
  assumes "0 < a" "0 < b"
  shows "(if 0 \<le> d then b * 2 ^ nat d \<le> a else b \<le> a * 2 ^ nat (- d)) \<longleftrightarrow>
         2 powr real_of_int d \<le> real a / real b"
proof (cases "0 \<le> d")
  case True
  then have p: "2 powr real_of_int d = 2 ^ nat d"
    by (metis of_int_of_nat_eq int_nat_eq powr_realpow zero_less_numeral of_nat_nat)
  have "real (b * 2 ^ nat d) = real b * 2 ^ nat d" by simp
  then have "b * 2 ^ nat d \<le> a \<longleftrightarrow> real b * 2 ^ nat d \<le> real a"
    by (metis of_nat_le_iff)
  also have "\<dots> \<longleftrightarrow> 2 ^ nat d \<le> real a / real b"
    using assms(2) by (simp add: pos_le_divide_eq mult.commute)
  finally show ?thesis using True p by simp
next
  case False
  then have nd: "0 \<le> - d" by simp
  have p: "2 powr real_of_int (- d) = 2 ^ nat (- d)"
    using nd by (metis of_int_of_nat_eq int_nat_eq powr_realpow zero_less_numeral of_nat_nat)
  have "2 powr real_of_int d = 1 / 2 powr real_of_int (- d)"
    by (simp add: powr_minus_divide)
  then have q: "2 powr real_of_int d = 1 / 2 ^ nat (- d)"
    by (simp only: p)
  have "real (a * 2 ^ nat (- d)) = real a * 2 ^ nat (- d)" by simp
  then have "b \<le> a * 2 ^ nat (- d) \<longleftrightarrow> real b \<le> real a * 2 ^ nat (- d)"
    by (metis of_nat_le_iff)
  also have "\<dots> \<longleftrightarrow> 1 / 2 ^ nat (- d) \<le> real a / real b"
    using assms(2) by (simp add: field_simps)
  finally show ?thesis using False q by simp
qed

lemma floor_log2_bounds:
  assumes "0 < a" "0 < b"
  shows "2 powr real_of_int (floor_log2 a b) \<le> real a / real b"
    and "real a / real b < 2 powr (real_of_int (floor_log2 a b) + 1)"
proof -
  define d where "d = int (bit_length a) - int (bit_length b)"
  have rb: "0 < real b" and ra: "0 < real a" using assms by simp_all
  note A = bit_length_real[OF assms(1)] and B = bit_length_real[OF assms(2)]
  have up: "real a / real b < 2 powr (real_of_int d + 1)"
  proof -
    have "real a < 2 powr real (bit_length a)" by (rule A(2))
    also have "\<dots> = 2 powr (real (bit_length b) - 1) * 2 powr (real_of_int d + 1)"
      by (simp add: d_def powr_add[symmetric])
    also have "\<dots> \<le> real b * 2 powr (real_of_int d + 1)"
      using B(1) by (simp add: mult_right_mono)
    finally show ?thesis using rb by (simp add: pos_divide_less_eq mult.commute)
  qed
  have low: "2 powr (real_of_int d - 1) < real a / real b"
  proof -
    have "real b * 2 powr (real_of_int d - 1) < 2 powr real (bit_length b) * 2 powr (real_of_int d - 1)"
      using B(2) by (simp add: mult_strict_right_mono)
    also have "\<dots> = 2 powr (real (bit_length a) - 1)"
      by (simp add: d_def powr_add[symmetric])
    also have "\<dots> \<le> real a" by (rule A(1))
    finally show ?thesis using rb by (simp add: pos_less_divide_eq mult.commute)
  qed
  have E: "floor_log2 a b = (if 2 powr real_of_int d \<le> real a / real b then d else d - 1)"
    unfolding floor_log2_def Let_def d_def[symmetric] floor_log2_cond[OF assms] ..
  show "2 powr real_of_int (floor_log2 a b) \<le> real a / real b"
    using low by (simp add: E)
  show "real a / real b < 2 powr (real_of_int (floor_log2 a b) + 1)"
    using up by (auto simp: E not_le)
qed

lemma floor_log2_mono:
  assumes "0 < a" "0 < b" "a \<le> a'"
  shows "floor_log2 a b \<le> floor_log2 a' b"
proof (rule ccontr)
  assume "\<not> floor_log2 a b \<le> floor_log2 a' b"
  then have "real_of_int (floor_log2 a' b) + 1 \<le> real_of_int (floor_log2 a b)" by linarith
  then have "2 powr (real_of_int (floor_log2 a' b) + 1) \<le> 2 powr real_of_int (floor_log2 a b)"
    by (simp add: powr_mono)
  also have "\<dots> \<le> real a / real b" using floor_log2_bounds(1)[OF assms(1,2)] .
  also have "\<dots> \<le> real a' / real b" using assms by (simp add: divide_right_mono)
  also have "\<dots> < 2 powr (real_of_int (floor_log2 a' b) + 1)"
    using floor_log2_bounds(2)[of a' b] assms by simp
  finally show False by simp
qed

lemma rne_mono:
  assumes "0 < b" "a \<le> a'"
  shows "rne a b \<le> rne a' b"
proof (cases "a div b = a' div b")
  case True
  have "a mod b \<le> a' mod b"
    using assms(2) True by (metis add_le_cancel_left div_mult_mod_eq mult.commute)
  then show ?thesis using True by (auto simp: rne_def Let_def)
next
  case False
  moreover have "a div b \<le> a' div b" using assms(2) by (rule div_le_mono)
  ultimately have "a div b + 1 \<le> a' div b" by simp
  moreover have "rne a b \<le> a div b + 1" by (simp add: rne_def Let_def)
  moreover have "a' div b \<le> rne a' b" by (simp add: rne_def Let_def)
  ultimately show ?thesis by linarith
qed

lemma true_div_small:
  assumes "0 < a" "0 < b" "a < 128 * b"
  obtains n where "46 \<le> n" "n \<le> 1074"
    "max (floor_log2 a b - 52) (- 1074) = - int n"
    "int_true_div a b = Inr (int (rne (a * 2 ^ n) b div 2 ^ n))"
proof -
  define e where "e = max (floor_log2 a b - 52) (- 1074)"
  define n where "n = nat (- e)"
  have "a < 2 ^ 7 * b" using assms(3) by simp
  from floor_log2_less[OF assms(1,2) this] have "floor_log2 a b < 7" by simp
  then have e_neg: "e \<le> - 46" and e_lo: "- 1074 \<le> e" by (simp_all add: e_def)
  then have n46: "46 \<le> n" and en: "e = - int n" and n_hi: "n \<le> 1074" by (simp_all add: n_def)
  define m where "m = rne (a * 2 ^ n) b"
  have "a * 2 ^ n \<le> 128 * 2 ^ n * b" using assms(3) by simp
  from rne_le[OF assms(2) this] have "m \<le> 128 * 2 ^ n" by (simp add: m_def)
  then have "m div 2 ^ n \<le> 128 * 2 ^ n div 2 ^ n" by (rule div_le_mono)
  then have small: "m div 2 ^ n \<le> 128" by simp
  have no_ovf: "\<not> (2::int) ^ 1024 \<le> int (m div 2 ^ n)"
  proof -
    have "int (m div 2 ^ n) < 2 ^ 8" using small by simp
    also have "(2::int) ^ 8 \<le> 2 ^ 1024" by (rule power_increasing) simp_all
    finally show ?thesis by simp
  qed
  have neg: "\<not> 0 \<le> e" using e_neg by simp
  have td: "true_div a b = Inr (m, e)"
    using assms(1) neg no_ovf
    by (simp add: true_div_def Let_def e_def[symmetric] n_def[symmetric] m_def[symmetric]
        int_of_double_def)
  have "int_true_div a b = Inr (int (m div 2 ^ n))"
    using td neg by (simp add: int_true_div_def bind_exn_def int_of_double_def n_def[symmetric])
  with n46 n_hi en show ?thesis using that by (simp add: e_def m_def)
qed

lemma int_true_div_zero: "int_true_div 0 b = Inr 0"
  by (simp add: int_true_div_def true_div_def bind_exn_def int_of_double_def)

lemma int_true_div_near:
  assumes "0 < b" "a < 128 * b"
  shows "\<exists>v. int_true_div a b = Inr v \<and> int (a div b) \<le> v \<and> v \<le> int (a div b) + 1"
proof (cases "a = 0")
  case True
  then show ?thesis by (simp add: int_true_div_zero)
next
  case False
  then have "0 < a" by simp
  from true_div_small[OF this assms] obtain n where
    v: "int_true_div a b = Inr (int (rne (a * 2 ^ n) b div 2 ^ n))" by blast
  define k where "k = a div b"
  have "k * b \<le> a" by (simp add: k_def)
  then have "k * 2 ^ n * b \<le> a * 2 ^ n" by (metis mult.assoc mult.commute mult_le_mono1)
  from rne_ge[OF assms(1) this] have "k * 2 ^ n div 2 ^ n \<le> rne (a * 2 ^ n) b div 2 ^ n"
    by (rule div_le_mono)
  then have lo: "k \<le> rne (a * 2 ^ n) b div 2 ^ n" by simp
  have "a < (k + 1) * b" unfolding k_def using assms(1)
    by (metis Suc_eq_plus1 dividend_less_div_times mult.commute mult_Suc)
  then have "a * 2 ^ n \<le> (k + 1) * 2 ^ n * b"
    by (metis less_imp_le mult.assoc mult.commute mult_le_mono1)
  from rne_le[OF assms(1) this] have "rne (a * 2 ^ n) b div 2 ^ n \<le> (k + 1) * 2 ^ n div 2 ^ n"
    by (rule div_le_mono)
  then have hi: "rne (a * 2 ^ n) b div 2 ^ n \<le> k + 1" by simp
  show ?thesis using v lo hi by (simp add: k_def)
qed

lemma int_true_div_multiple:
  assumes "0 < b" "k < 128"
  shows "int_true_div (k * b) b = Inr (int k)"
proof (cases "k = 0")
  case True
  then show ?thesis by (simp add: int_true_div_zero)
next
  case False
  then have pos: "0 < k * b" using assms(1) by simp
  have "k * b < 128 * b" using assms by simp
  from true_div_small[OF pos assms(1) this] obtain n where
    v: "int_true_div (k * b) b = Inr (int (rne (k * b * 2 ^ n) b div 2 ^ n))" by blast
  have eq: "k * b * 2 ^ n = k * 2 ^ n * b" by (simp add: mult.commute mult.left_commute)
  have "rne (k * 2 ^ n * b) b = k * 2 ^ n"
    using rne_ge[OF assms(1), of "k * 2 ^ n" "k * 2 ^ n * b"]
      rne_le[OF assms(1), of "k * 2 ^ n * b" "k * 2 ^ n"] by simp
  then show ?thesis using v by (simp add: eq)
qed

lemma floor_nat_div: "\<lfloor>real m / 2 ^ n\<rfloor> = int (m div 2 ^ n)"
proof -
  have "real m / 2 ^ n = real m / real (2 ^ n)" by simp
  then show ?thesis by (simp only: floor_divide_of_nat_eq)
qed

lemma int_true_div_mono:
  assumes b: "0 < b" and le: "a \<le> a'" and small: "a' < 128 * b"
    and v: "int_true_div a b = Inr v" and v': "int_true_div a' b = Inr v'"
  shows "v \<le> v'"
proof (cases "a = 0")
  case True
  with v have "v = 0" by (simp add: int_true_div_zero)
  moreover have "0 \<le> v'" using int_true_div_near[OF b small] v' by auto
  ultimately show ?thesis by simp
next
  case False
  then have a: "0 < a" by simp
  with le have a': "0 < a'" by simp
  have small_a: "a < 128 * b" using le small by simp
  define E where "E = floor_log2 a b"
  define E' where "E' = floor_log2 a' b"
  from true_div_small[OF a b small_a] obtain n where n: "46 \<le> n" "n \<le> 1074"
    "max (E - 52) (- 1074) = - int n"
    "int_true_div a b = Inr (int (rne (a * 2 ^ n) b div 2 ^ n))"
    unfolding E_def by blast
  from true_div_small[OF a' b small] obtain n' where n': "46 \<le> n'" "n' \<le> 1074"
    "max (E' - 52) (- 1074) = - int n'"
    "int_true_div a' b = Inr (int (rne (a' * 2 ^ n') b div 2 ^ n'))"
    unfolding E'_def by blast
  define m where "m = rne (a * 2 ^ n) b"
  define m' where "m' = rne (a' * 2 ^ n') b"
  have vm: "v = int (m div 2 ^ n)" "v' = int (m' div 2 ^ n')"
    using v v' n(4) n'(4) by (simp_all add: m_def m'_def)
  have EE: "E \<le> E'" unfolding E_def E'_def using a b le by (rule floor_log2_mono)
  then have nn: "n' \<le> n" using n(3) n'(3) by linarith
  show ?thesis
  proof (cases "n = n'")
    case True
    have "a * 2 ^ n \<le> a' * 2 ^ n" using le by simp
    from rne_mono[OF b this] have "m \<le> m'" by (simp add: m_def m'_def True)
    then have "m div 2 ^ n \<le> m' div 2 ^ n" by (rule div_le_mono)
    then show ?thesis by (simp add: vm True)
  next
    case False
    with nn have lt: "n' < n" by simp
    have E'n': "E' = 52 - int n'" using n'(3) lt n(2) by linarith
    have En: "E + 1 \<le> E'" using n(3) E'n' lt by linarith
    have rb: "0 < real b" using b by simp
    have boundsE: "real a / real b < 2 powr (real_of_int E + 1)"
      unfolding E_def using a b by (rule floor_log2_bounds(2))
    have boundsE': "2 powr real_of_int E' \<le> real a' / real b"
      unfolding E'_def using a' b by (rule floor_log2_bounds(1))
    have U: "real m / 2 ^ n \<le> 2 powr (real_of_int E + 1)"
    proof (cases "0 \<le> E + 1 + int n")
      case True
      define N where "N = (2::nat) ^ nat (E + 1 + int n)"
      have "real (nat (E + 1 + int n)) = real_of_int E + 1 + real n" using True by simp
      then have "2 powr (real_of_int E + 1 + real n) = 2 ^ nat (E + 1 + int n)"
        by (metis powr_realpow zero_less_numeral)
      then have rN: "real N = 2 powr (real_of_int E + 1) * 2 ^ n"
        by (simp add: N_def powr_add powr_realpow)
      have "real a < 2 powr (real_of_int E + 1) * real b"
        using boundsE rb by (simp add: pos_divide_less_eq)
      then have "real a * 2 ^ n < 2 powr (real_of_int E + 1) * real b * 2 ^ n" by simp
      also have "\<dots> = real N * real b" by (simp add: rN)
      finally have "real (a * 2 ^ n) < real (N * b)" by simp
      then have "a * 2 ^ n \<le> N * b" by (metis of_nat_less_iff less_imp_le)
      from rne_le[OF b this] have "m \<le> N" by (simp add: m_def)
      then have "real m \<le> real N" by simp
      then have "real m / 2 ^ n \<le> real N / 2 ^ n" by (simp add: divide_right_mono)
      also have "\<dots> = 2 powr (real_of_int E + 1)" by (simp add: rN)
      finally show ?thesis .
    next
      case False
      then have "real_of_int E + 1 + real n \<le> - 1" by linarith
      then have "2 powr (real_of_int E + 1 + real n) \<le> 2 powr (- 1)"
        by (rule powr_mono) simp
      moreover have "2 powr (- 1 :: real) = 1 / 2" by (simp add: powr_minus_divide)
      moreover have "2 powr (real_of_int E + 1 + real n) = 2 powr (real_of_int E + 1) * 2 ^ n"
        by (simp add: powr_add powr_realpow)
      ultimately have half: "2 powr (real_of_int E + 1) * 2 ^ n \<le> 1 / 2" by simp
      have "real a < 2 powr (real_of_int E + 1) * real b"
        using boundsE rb by (simp add: pos_divide_less_eq)
      then have "real a * 2 ^ n < 2 powr (real_of_int E + 1) * 2 ^ n * real b"
        by (simp add: mult.commute mult.left_commute)
      also have "\<dots> \<le> 1 / 2 * real b" using half rb by (simp add: mult_right_mono)
      finally have "2 * real (a * 2 ^ n) < real b" by simp
      then have "real (2 * (a * 2 ^ n)) < real b" by simp
      then have tiny: "2 * (a * 2 ^ n) < b" by (metis of_nat_less_iff)
      then have "a * 2 ^ n < b" by simp
      then have "(a * 2 ^ n) div b = 0" "(a * 2 ^ n) mod b = a * 2 ^ n" by simp_all
      with tiny have "m = 0" by (simp add: m_def rne_def Let_def)
      then show ?thesis by simp
    qed
    have L: "2 powr real_of_int E' \<le> real m' / 2 ^ n'"
    proof -
      have sum: "real_of_int E' + real n' = 52" using E'n' by simp
      then have "2 powr (real_of_int E' + real n') = 2 ^ 52"
        by (simp add: powr_numeral)
      then have p: "2 powr real_of_int E' * 2 ^ n' = 2 ^ 52" by (simp add: powr_add powr_realpow)
      have "2 powr real_of_int E' * real b \<le> real a'"
        using boundsE' rb by (simp add: pos_le_divide_eq)
      then have le': "2 powr real_of_int E' * real b * 2 ^ n' \<le> real a' * 2 ^ n'" by simp
      have "(2::real) ^ 52 * real b = (2 powr real_of_int E' * 2 ^ n') * real b" by (simp only: p)
      also have "\<dots> = 2 powr real_of_int E' * real b * 2 ^ n'" by (simp only: ac_simps)
      also note le'
      finally have "2 ^ 52 * real b \<le> real a' * 2 ^ n'" .
      then have "real (2 ^ 52 * b) \<le> real (a' * 2 ^ n')" by simp
      then have "2 ^ 52 * b \<le> a' * 2 ^ n'" by (metis of_nat_le_iff)
      from rne_ge[OF b this] have "2 ^ 52 \<le> m'" by (simp add: m'_def)
      then have "(2::real) ^ 52 \<le> real m'" by (metis of_nat_le_iff of_nat_numeral of_nat_power)
      then have "2 ^ 52 / 2 ^ n' \<le> real m' / 2 ^ n'" by (simp add: divide_right_mono)
      moreover have "2 powr real_of_int E' = 2 ^ 52 / 2 ^ n'" using p by (simp add: field_simps)
      ultimately show ?thesis by simp
    qed
    have "real m / 2 ^ n \<le> 2 powr (real_of_int E + 1)" by (rule U)
    also have "\<dots> \<le> 2 powr real_of_int E'" using En by (simp add: powr_mono)
    also have "\<dots> \<le> real m' / 2 ^ n'" by (rule L)
    finally have "\<lfloor>real m / 2 ^ n\<rfloor> \<le> \<lfloor>real m' / 2 ^ n'\<rfloor>" by (rule floor_mono)
    then show ?thesis by (simp add: floor_nat_div vm)
  qed
qed

subsection \<open>The values reported with a declared length\<close>

lemma report_chunks_general:
  assumes "0 < T"
  shows "got + length (concat cs) \<le> T \<Longrightarrow>
         \<exists>ps. report_chunks (int T) got cs = Inr ps \<and>
              list_all2 (\<lambda>g p. int_true_div (g * 100) T = Inr p) (received got cs) ps"
proof (induction cs arbitrary: got)
  case Nil
  then show ?case by simp
next
  case (Cons c cs)
  show ?case
  proof (cases "c = []")
    case True
    with Cons show ?thesis by simp
  next
    case False
    from Cons.prems have le: "got + length c \<le> T"
      and rest: "(got + length c) + length (concat cs) \<le> T" by simp_all
    have "(got + length c) * 100 \<le> T * 100" using le by (rule mult_le_mono1)
    also have "T * 100 < 128 * T" using assms by simp
    finally have "(got + length c) * 100 < 128 * T" .
    from int_true_div_near[OF assms this] obtain v where
      v: "int_true_div ((got + length c) * 100) T = Inr v" by blast
    from Cons.IH[OF rest] obtain ps where
      ps: "report_chunks (int T) (got + length c) cs = Inr ps"
        "list_all2 (\<lambda>g p. int_true_div (g * 100) T = Inr p) (received (got + length c) cs) ps"
      by blast
    show ?thesis using False assms v ps by (simp add: bind_exn_def)
  qed
qed

lemma list_all2_rightD: "list_all2 R xs ys \<Longrightarrow> y \<in> set ys \<Longrightarrow> \<exists>x \<in> set xs. R x y"
  by (induction rule: list_all2_induct) auto

lemma reported_sorted:
  assumes T: "0 < T"
  shows "list_all2 (\<lambda>g p. int_true_div (g * 100) T = Inr p) gs ps \<Longrightarrow> sorted gs \<Longrightarrow>
         \<forall>g \<in> set gs. g \<le> T \<Longrightarrow> sorted ps \<and> (\<forall>p \<in> set ps. p \<le> 100)"
proof (induction rule: list_all2_induct)
  case Nil
  then show ?case by simp
next
  case (Cons g gs p ps)
  from Cons.prems have sg: "sorted gs" and bg: "\<forall>g \<in> set gs. g \<le> T" and gT: "g \<le> T"
    and first: "\<forall>g' \<in> set gs. g \<le> g'" by simp_all
  from Cons.IH[OF sg bg] have IH: "sorted ps" "\<forall>p \<in> set ps. p \<le> 100" by simp_all
  have small: "\<And>x. x \<le> T \<Longrightarrow> x * 100 < 128 * T"
  proof -
    fix x assume "x \<le> T"
    then have "x * 100 \<le> T * 100" by (rule mult_le_mono1)
    also have "T * 100 < 128 * T" using T by simp
    finally show "x * 100 < 128 * T" .
  qed
  have full: "int_true_div (T * 100) T = Inr 100"
    using int_true_div_multiple[OF T, of 100] by (simp add: mult.commute)
  have p100: "p \<le> 100"
  proof -
    have "g * 100 \<le> T * 100" using gT by (rule mult_le_mono1)
    from int_true_div_mono[OF T this small[OF order_refl] Cons.hyps(1) full] show ?thesis .
  qed
  have "\<forall>p' \<in> set ps. p \<le> p'"
  proof
    fix p' assume "p' \<in> set ps"
    from list_all2_rightD[OF Cons.hyps(2) this] obtain g' where
      g': "g' \<in> set gs" "int_true_div (g' * 100) T = Inr p'" by blast
    with first bg have "g \<le> g'" "g' \<le> T" by simp_all
    then have "g * 100 \<le> g' * 100" by simp
    from int_true_div_mono[OF T this small[OF \<open>g' \<le> T\<close>] Cons.hyps(1) g'(2)] show "p \<le> p'" .
  qed
  with IH p100 show ?case by simp
qed

lemma reported_near:
  assumes T: "0 < T"
  shows "list_all2 (\<lambda>g p. int_true_div (g * 100) T = Inr p) gs ps \<Longrightarrow> \<forall>g \<in> set gs. g \<le> T \<Longrightarrow>
         list_all2 (\<lambda>g p. p = floor_percent T g \<or> p = floor_percent T g + 1) gs ps"
proof (induction rule: list_all2_induct)
  case Nil
  then show ?case by simp
next
  case (Cons g gs p ps)
  then have gT: "g \<le> T" by simp
  then have "g * 100 \<le> T * 100" by (rule mult_le_mono1)
  also have "T * 100 < 128 * T" using T by simp
  finally have "g * 100 < 128 * T" .
  from int_true_div_near[OF T this] Cons.hyps(1)
  have "p = floor_percent T g \<or> p = floor_percent T g + 1"
    by (auto simp: floor_percent_def)
  with Cons show ?case by simp
qed

lemma reported_exact:
  assumes T: "0 < T" "T \<le> 2 ^ 46"
  shows "list_all2 (\<lambda>g p. int_true_div (g * 100) T = Inr p) gs ps \<Longrightarrow> \<forall>g \<in> set gs. g \<le> T \<Longrightarrow>
         ps = map (floor_percent T) gs"
proof (induction rule: list_all2_induct)
  case Nil
  then show ?case by simp
next
  case (Cons g gs p ps)
  then have gT: "g \<le> T" by simp
  then have "g * 100 \<le> T * 100" by (rule mult_le_mono1)
  also have "T * 100 < 128 * T" using T(1) by simp
  finally have "g * 100 < 128 * T" .
  from int_true_div_exact[OF T this] Cons.hyps(1) have "p = floor_percent T g"
    by (simp add: floor_percent_def)
  with Cons show ?case by simp
qed

text \<open>
  Claim C8, with the range in which the double division is exact. When the response
  declares a positive length and delivers exactly that many bytes, the download
  returns, the values reported never decrease and the last one is 100; the value
  reported after each non-empty chunk is \<open>\<lfloor>got * 100 / total\<rfloor>\<close> or one more, and it is
  \<open>\<lfloor>got * 100 / total\<rfloor>\<close> when the declared length is at most \<open>2 ^ 46\<close> bytes.
\<close>

theorem download_known_length:
  assumes "get_stream url = Inr r"
    and "\<not> (400 \<le> stream_status r \<and> stream_status r < 600)"
    and "declared_length r = Some (Inr total_len)"
    and "0 < total_len"
    and "int (length (concat (chunks r))) = total_len"
  shows "\<exists>d. download_file get_stream url out_path = Inr d \<and>
           list_all2 (\<lambda>g p. p = floor_percent (nat total_len) g \<or> p = floor_percent (nat total_len) g + 1)
             (received 0 (chunks r)) (butlast (progress d)) \<and>
           (total_len \<le> 2 ^ 46 \<longrightarrow>
              progress d = map (floor_percent (nat total_len)) (received 0 (chunks r)) @ [100]) \<and>
           sorted (progress d) \<and> last (progress d) = 100"
proof -
  define T where "T = nat total_len"
  have T: "0 < T" "int T = total_len" "length (concat (chunks r)) = T"
    using assms(4,5) by (simp_all add: T_def)
  from report_chunks_general[OF T(1), of 0 "chunks r"] T(3) obtain ps where
    rc: "report_chunks (int T) 0 (chunks r) = Inr ps"
    and rel: "list_all2 (\<lambda>g p. int_true_div (g * 100) T = Inr p) (received 0 (chunks r)) ps"
    by auto
  have bound: "\<forall>g \<in> set (received 0 (chunks r)). g \<le> T"
    using received_bounds[of _ 0 "chunks r"] T(3) by auto
  from reported_sorted[OF T(1) rel received_sorted bound]
  have s: "sorted ps" "\<forall>p \<in> set ps. p \<le> 100" by simp_all
  then have sorted: "sorted (ps @ [100])" by (simp add: sorted_append)
  note near = reported_near[OF T(1) rel bound]
  have exact: "total_len \<le> 2 ^ 46 \<longrightarrow> ps = map (floor_percent T) (received 0 (chunks r))"
  proof
    assume "total_len \<le> 2 ^ 46"
    then have "T \<le> 2 ^ 46" by (simp add: T_def nat_le_iff)
    from reported_exact[OF T(1) this rel bound] show "ps = map (floor_percent T) (received 0 (chunks r))" .
  qed
  have "download_file get_stream url out_path =
      Inr \<lparr>progress = ps @ [100], written = concat (chunks r),
           logged = [py ''saved '' @ [8211, 32] @ out_path]\<rparr>"
    using assms(1,2,3) rc T(2) by (simp add: download_file_def bind_exn_def)
  then show ?thesis using near exact sorted by (simp add: T_def)
qed

theorem download_known_length_witness:
  "\<exists>d. download_file (\<lambda>u. Inr \<lparr>stream_status = 200, declared_length = Some (Inr 7),
            chunks = [[1, 2, 3], [], [4, 5], [6, 7]]\<rparr>) (py ''https://a.b/x.glb'') (py ''x.glb'') = Inr d \<and>
       progress d = [42, 71, 100, 100] \<and> sorted (progress d) \<and> last (progress d) = 100"
proof -
  have "(7::int) \<le> 2 ^ 46" by simp
  with download_known_length[of "\<lambda>u. Inr \<lparr>stream_status = 200, declared_length = Some (Inr 7),
            chunks = [[1, 2, 3], [], [4, 5], [6, 7]]\<rparr>" "py ''https://a.b/x.glb''" _ 7 "py ''x.glb''"]
  obtain d where "download_file (\<lambda>u. Inr \<lparr>stream_status = 200, declared_length = Some (Inr 7),
            chunks = [[1, 2, 3], [], [4, 5], [6, 7]]\<rparr>) (py ''https://a.b/x.glb'') (py ''x.glb'') = Inr d"
    "progress d = map (floor_percent 7) (received 0 [[1, 2, 3], [], [4, 5], [6, 7]]) @ [100]"
    "sorted (progress d)" "last (progress d) = 100"
    by auto
  then show ?thesis by (auto simp: floor_percent_def)
qed

lemma received_append:
  "received got (xs @ ys) = received got xs @ received (got + length (concat xs)) ys"
  by (induction xs arbitrary: got) (simp_all add: add.assoc)

text \<open>
  For a declared length of \<open>10 ^ 17\<close> bytes the double nearest to
  \<open>(10 ^ 17 - 1) * 100 / 10 ^ 17\<close> is \<open>100.0\<close>: the last three values reported are 100,
  the one before the last byte included, where the floor is 99.
\<close>

theorem download_huge_counterexample:
  "map_sum id (\<lambda>d. take 3 (rev (progress d)))
     (download_file (\<lambda>u. Inr huge_download) (py ''https://a.b/x.glb'') (py ''x.glb''))
     = Inr [100, 100, 100] \<and>
   take 2 (rev (map (floor_percent (10 ^ 17)) (received 0 (chunks huge_download)))) = [100, 99]"
proof -
  let ?xs = "replicate 190734863281 (replicate 524288 (0::nat))"
  let ?ys = "[replicate 131071 (0::nat), [0]]"
  let ?T = "100000000000000000::nat"
  have len: "length (concat ?xs) = 99999999999868928"
    by (simp add: length_concat sum_list_replicate)
  have rec: "received 0 (?xs @ ?ys) = received 0 ?xs @ [99999999999999999, 100000000000000000]"
    by (simp add: received_append len)
  have total: "0 + length (concat (?xs @ ?ys)) \<le> ?T"
    by (simp add: length_concat sum_list_replicate)
  from report_chunks_general[OF _ total] obtain ps where
    rc: "report_chunks (int ?T) 0 (?xs @ ?ys) = Inr ps"
    and rel: "list_all2 (\<lambda>g p. int_true_div (g * 100) ?T = Inr p) (received 0 (?xs @ ?ys)) ps"
    by auto
  from rel obtain qs p1 p2 where ps: "ps = qs @ [p1, p2]"
    and p1: "int_true_div (99999999999999999 * 100) ?T = Inr p1"
    and p2: "int_true_div (100000000000000000 * 100) ?T = Inr p2"
    unfolding rec by (auto simp: list_all2_append1 list_all2_Cons1)
  have "int_true_div (99999999999999999 * 100) ?T = Inr 100"
    by (simp add: int_true_div_def bind_exn_def true_div_def floor_log2_def bit_length.simps
        rne_def int_of_double_def)
  with p1 have p1': "p1 = 100" by simp
  have "int_true_div (100 * ?T) ?T = Inr 100"
    using int_true_div_multiple[of ?T 100] by simp
  with p2 have p2': "p2 = 100" by simp
  have 1: "download_file (\<lambda>u. Inr huge_download) (py ''https://a.b/x.glb'') (py ''x.glb'') =
      Inr \<lparr>progress = (qs @ [100, 100]) @ [100], written = concat (?xs @ ?ys),
           logged = [py ''saved '' @ [8211, 32] @ py ''x.glb'']\<rparr>"
    using rc ps p1' p2' by (simp add: download_file_def huge_download_def bind_exn_def)
  have 2: "take 2 (rev (map (floor_percent (10 ^ 17)) (received 0 (chunks huge_download)))) = [100, 99]"
    by (simp add: huge_download_def rec rev_map floor_percent_def)
  show ?thesis unfolding 1 using 2 by (simp add: numeral_3_eq_3)
qed


text \<open>
  Claim C9. When the response declares no length, the download returns, it reports one
  value per non-empty chunk and a final one, every value but the last lies between 0
  and 99, and the last is 100.
\<close>

theorem download_unknown_length:
  assumes "get_stream url = Inr r"
    and "\<not> (400 \<le> stream_status r \<and> stream_status r < 600)"
    and "declared_length r = None"
  shows "\<exists>d. download_file get_stream url out_path = Inr d \<and>
           length (progress d) = Suc (length (received 0 (chunks r))) \<and>
           (\<forall>p \<in> set (butlast (progress d)). 0 \<le> p \<and> p \<le> 99) \<and>
           last (progress d) = 100"
  using assms by (auto simp: download_file_def bind_exn_def report_chunks_pulse)

theorem download_unknown_length_witness:
  "\<exists>d. download_file (\<lambda>u. Inr \<lparr>stream_status = 200, declared_length = None,
            chunks = [[1, 2, 3], [], [4, 5]]\<rparr>) (py ''https://a.b/x.glb'') (py ''x.glb'') = Inr d \<and>
       length (progress d) = 3 \<and>
       (\<forall>p \<in> set (butlast (progress d)). 0 \<le> p \<and> p \<le> 99) \<and>
       last (progress d) = 100"
  using download_unknown_length[of "\<lambda>u. Inr \<lparr>stream_status = 200, declared_length = None,
            chunks = [[1, 2, 3], [], [4, 5]]\<rparr>" "py ''https://a.b/x.glb''" _ "py ''x.glb''"]
  by (simp add: numeral_3_eq_3)

section \<open>Properties of the normalizer\<close>

lemma last_dropWhile_nonempty: "dropWhile P xs \<noteq> [] \<Longrightarrow> last (dropWhile P xs) = last xs"
  by (induction xs) (auto split: if_splits)

lemma strip_clean:
  "strip s = [] \<or> (\<not> isspace (hd (strip s)) \<and> \<not> isspace (last (strip s)))"
proof (cases "strip s = []")
  case True
  then show ?thesis by simp
next
  case False
  define u where "u = dropWhile isspace s"
  define v where "v = dropWhile isspace (rev u)"
  have sv: "strip s = rev v" by (simp add: strip_def u_def v_def)
  with False have v: "v \<noteq> []" by simp
  then have "rev u \<noteq> []" by (auto simp: v_def)
  then have u: "u \<noteq> []" by simp
  have "\<not> isspace (hd v)" using v unfolding v_def by (rule hd_dropWhile)
  then have l: "\<not> isspace (last (strip s))" using v by (simp add: sv last_rev)
  have "last v = last (rev u)" using v unfolding v_def by (rule last_dropWhile_nonempty)
  then have "hd (strip s) = hd u" using v u by (simp add: sv hd_rev last_rev)
  moreover have "\<not> isspace (hd u)" using u unfolding u_def by (rule hd_dropWhile)
  ultimately show ?thesis using l by simp
qed

lemma strip_fixed:
  assumes "s = [] \<or> (\<not> isspace (hd s) \<and> \<not> isspace (last s))"
  shows "strip s = s"
proof (cases "s = []")
  case True
  then show ?thesis by (simp add: strip_def)
next
  case False
  with assms have h: "\<not> isspace (hd s)" and l: "\<not> isspace (last s)" by simp_all
  have "dropWhile isspace s = s" using h False by (cases s) simp_all
  moreover have "dropWhile isspace (rev s) = rev s"
    using l False by (cases "rev s") (simp_all add: last_rev[symmetric] hd_rev)
  ultimately show ?thesis by (simp add: strip_def)
qed

lemma strip_idem: "strip (strip s) = strip s"
  by (rule strip_fixed) (rule strip_clean)

lemma endswith_single: "endswith s [c] \<Longrightarrow> c \<in> set s"
  by (cases "rev s") (auto simp: endswith_def dest: arg_cong[where f = set])

lemma strip_trailing_backslash_absent: "92 \<notin> set s \<Longrightarrow> strip_trailing_backslash s = s"
  using endswith_single[of s 92] by (auto simp: strip_trailing_backslash_def)

lemma replace_absent: "old \<noteq> [] \<Longrightarrow> hd old \<notin> set s \<Longrightarrow> replace old new s = s"
proof (induction s)
  case Nil
  then show ?case by simp
next
  case (Cons c cs)
  then have "\<not> startswith (c # cs) old"
    by (cases old) (auto simp: startswith_def)
  with Cons show ?case by simp
qed

lemma uu_rx_needs_backslash: "c \<noteq> 92 \<Longrightarrow> match_at uu_rx (c # cs) = None"
  by (simp add: match_at_def uu_rx_def)

lemma u_rx_needs_backslash: "c \<noteq> 92 \<Longrightarrow> match_at u_rx (c # cs) = None"
  by (simp add: match_at_def u_rx_def)

lemma decode_double_absent: "92 \<notin> set s \<Longrightarrow> decode_double_escaped s = s"
  unfolding decode_double_escaped_def
  by (induction s) (simp_all add: uu_rx_needs_backslash)

lemma decode_single_absent: "92 \<notin> set s \<Longrightarrow> decode_single_escaped s = s"
  unfolding decode_single_escaped_def
  by (induction s) (simp_all add: u_rx_needs_backslash)

lemma normalize_unfold:
  "normalize_found_url env raw = Inr (strip (unescape_entities env (before_entities raw)))"
  by (simp add: normalize_found_url_def normalize_steps_def before_entities_def Let_def)

lemma normalize_clean_fixed:
  assumes "92 \<notin> set y" "html_unescape env y = Inr y" "strip y = y"
  shows "normalize_found_url env y = Inr y"
proof -
  have "before_entities y = y"
    using assms(1,3)
    by (simp add: before_entities_def strip_trailing_backslash_absent unescape_json_def
        collapse_backslashes_def replace_absent decode_double_absent decode_single_absent)
  then show ?thesis
    using assms(2,3) by (simp add: normalize_unfold unescape_entities_def)
qed

text \<open>
  Claim C7, for the strings the normalizer has nothing left to decode in. When the
  normalized form of \<open>x\<close> holds no backslash and the entity decoder leaves it as it is
  (as it leaves every string without a character reference), normalizing it again
  changes nothing: \<open>normalize (normalize x) = normalize x\<close>.
\<close>

theorem normalize_idempotent_on_clean:
  assumes "normalize_found_url env x = Inr y" and "92 \<notin> set y"
    and "html_unescape env y = Inr y"
  shows "normalize_twice env x = normalize_found_url env x"
proof -
  from assms(1) have "y = strip (unescape_entities env (before_entities x))"
    by (simp add: normalize_unfold)
  then have "strip y = y" by (simp add: strip_idem)
  from normalize_clean_fixed[OF assms(2,3) this] assms(1) show ?thesis
    by (simp add: normalize_twice_def bind_exn_def)
qed

lemmas normalize_eval = normalize_found_url_def normalize_steps_def Let_def strip_def isspace_def
  strip_trailing_backslash_def endswith_def unescape_json_def collapse_backslashes_def
  decode_double_escaped_def decode_single_escaped_def unescape_entities_def html_unescape_def
  startswith_def match_at_def uu_rx_def u_rx_def py_def u_repl_def bind_exn_def py_int16_def
  py_chr_def is_hex_def is_digit_def hex_val_def normalize_twice_def spec_pipeline_def
  before_entities_def

theorem normalize_idempotent_on_clean_witness:
  "normalize_found_url amp_only
     (py ''https:'' @ [92] @ py ''/'' @ [92] @ py ''/a.b'' @ [92] @ py ''/x.glb?Expires=1&amp;Signature=2'')
     = Inr (py ''https://a.b/x.glb?Expires=1&Signature=2'') \<and>
   92 \<notin> set (py ''https://a.b/x.glb?Expires=1&Signature=2'') \<and>
   html_unescape amp_only (py ''https://a.b/x.glb?Expires=1&Signature=2'')
     = Inr (py ''https://a.b/x.glb?Expires=1&Signature=2'') \<and>
   normalize_twice amp_only
     (py ''https:'' @ [92] @ py ''/'' @ [92] @ py ''/a.b'' @ [92] @ py ''/x.glb?Expires=1&amp;Signature=2'')
     = Inr (py ''https://a.b/x.glb?Expires=1&Signature=2'')"
proof -
  have 1: "normalize_found_url amp_only
     (py ''https:'' @ [92] @ py ''/'' @ [92] @ py ''/a.b'' @ [92] @ py ''/x.glb?Expires=1&amp;Signature=2'')
     = Inr (py ''https://a.b/x.glb?Expires=1&Signature=2'')"
    by (simp add: normalize_eval amp_only_def offline_def)
  have 2: "92 \<notin> set (py ''https://a.b/x.glb?Expires=1&Signature=2'')"
    by (simp add: py_def)
  have 3: "html_unescape amp_only (py ''https://a.b/x.glb?Expires=1&Signature=2'')
     = Inr (py ''https://a.b/x.glb?Expires=1&Signature=2'')"
    by (simp add: html_unescape_def amp_only_def offline_def py_def startswith_def)
  from normalize_idempotent_on_clean[OF 1 2 3] 1 2 3 show ?thesis by simp
qed

text \<open>
  A URL whose slashes are escaped twice is decoded one level per pass, and so is an
  ampersand encoded twice as \<^verbatim>\<open>&amp;amp;\<close>: the second pass still changes them.
\<close>

theorem normalize_not_idempotent:
  "normalize_twice offline (py ''https:'' @ [92, 92, 92] @ py ''/'' @ [92, 92, 92] @ py ''/a.b/x.glb'')
     \<noteq> normalize_found_url offline (py ''https:'' @ [92, 92, 92] @ py ''/'' @ [92, 92, 92] @ py ''/a.b/x.glb'') \<and>
   normalize_twice amp_only (py ''https://a.b/x.glb?a=1&amp;amp;b=2'')
     \<noteq> normalize_found_url amp_only (py ''https://a.b/x.glb?a=1&amp;amp;b=2'')"
  by (simp add: normalize_eval amp_only_def offline_def)

text \<open>
  Claim C5, with the trim the source starts with. The normalizer is the seven stages
  of the specification, in their order, applied to the trimmed input; and the URL with
  escaped slashes of the specification becomes \<^verbatim>\<open>https://a.b/x.glb\<close>, whatever the entity
  decoder does.
\<close>

theorem normalize_order:
  "normalize_found_url env raw = Inr (spec_pipeline env (strip raw)) \<and>
   normalize_found_url env (py ''https:'' @ [92] @ py ''/'' @ [92] @ py ''/a.b'' @ [92] @ py ''/x.glb'')
     = Inr (py ''https://a.b/x.glb'')"
proof
  show "normalize_found_url env raw = Inr (spec_pipeline env (strip raw))"
    by (simp add: normalize_found_url_def normalize_steps_def spec_pipeline_def Let_def)
  show "normalize_found_url env (py ''https:'' @ [92] @ py ''/'' @ [92] @ py ''/a.b'' @ [92] @ py ''/x.glb'')
     = Inr (py ''https://a.b/x.glb'')"
    by (simp add: normalize_eval)
qed

text \<open>
  On a backslash followed by a space the source trims first and then removes the
  backslash; the seven stages alone keep it.
\<close>

theorem normalize_order_counterexample:
  "normalize_found_url offline [97, 92, 32] = Inr [97] \<and> spec_pipeline offline [97, 92, 32] = [97, 92]"
  by (simp add: normalize_eval)

text \<open>
  Claim C6, with what the guarded step does. The normalizer returns a string for every
  input and every behaviour of the entity decoder; when the entity step raises, that
  step alone is skipped: the result is the value of the earlier stages, trimmed.
\<close>

theorem normalize_total:
  "(\<exists>s. normalize_found_url env raw = Inr s) \<and>
   (\<forall>e. html_unescape env (before_entities raw) = Inl e \<longrightarrow>
        normalize_found_url env raw = Inr (strip (before_entities raw)))"
  by (simp add: normalize_unfold unescape_entities_def)

theorem normalize_total_witness:
  "html_unescape failing_unescape (before_entities (py ''a'' @ [92] @ py ''/b&c''))
     = Inl (ValueError (py ''Exceeds the limit (4300 digits) for integer string conversion'')) \<and>
   normalize_found_url failing_unescape (py ''a'' @ [92] @ py ''/b&c'') = Inr (py ''a/b&c'')"
proof -
  have 1: "html_unescape failing_unescape (before_entities (py ''a'' @ [92] @ py ''/b&c''))
     = Inl (ValueError (py ''Exceeds the limit (4300 digits) for integer string conversion''))"
    by (simp add: normalize_eval failing_unescape_def offline_def)
  have 2: "strip (before_entities (py ''a'' @ [92] @ py ''/b&c'')) = py ''a/b&c''"
    by (simp add: normalize_eval)
  from normalize_total[of failing_unescape "py ''a'' @ [92] @ py ''/b&c''"] 1 2 show ?thesis
    by simp
qed

text \<open>
  With an entity decoder that raises, the normalizer still unescapes the slash: it
  does not return its input unchanged.
\<close>

theorem normalize_fallback_counterexample:
  "html_unescape failing_unescape (before_entities (py ''a'' @ [92] @ py ''/b&c'')) \<noteq>
     Inr (before_entities (py ''a'' @ [92] @ py ''/b&c'')) \<and>
   normalize_found_url failing_unescape (py ''a'' @ [92] @ py ''/b&c'') \<noteq> Inr (py ''a'' @ [92] @ py ''/b&c'')"
  by (simp add: normalize_eval failing_unescape_def offline_def)

section \<open>Properties of the resolver\<close>

lemma rmatch_template:
  "template r = Some ps \<Longrightarrow>
   rmatch r (s, g) k =
     (if list_all2 (\<lambda>p c. p c) ps (take (length ps) s) then k (drop (length ps) s, g) else None)"
proof (induction r arbitrary: ps s g k)
  case Eps
  then show ?case by simp
next
  case (Chr p)
  then show ?case by (cases s) auto
next
  case (Seq a b)
  from Seq.prems obtain pa pb where a: "template a = Some pa" and b: "template b = Some pb"
    and ps: "ps = pa @ pb"
    by (auto split: option.splits)
  have split: "list_all2 (\<lambda>p c. p c) (pa @ pb) (take (length pa + length pb) s) \<longleftrightarrow>
      list_all2 (\<lambda>p c. p c) pa (take (length pa) s) \<and>
      list_all2 (\<lambda>p c. p c) pb (take (length pb) (drop (length pa) s))"
  proof -
    have "take (length pa + length pb) s = take (length pa) s @ take (length pb) (drop (length pa) s)"
      by (simp add: take_add)
    moreover have "list_all2 (\<lambda>p c. p c) (pa @ pb) (take (length pa) s @ take (length pb) (drop (length pa) s))
       \<longleftrightarrow> list_all2 (\<lambda>p c. p c) pa (take (length pa) s) \<and>
      list_all2 (\<lambda>p c. p c) pb (take (length pb) (drop (length pa) s))"
    proof (cases "length pa \<le> length s")
      case True
      then have "length pa = length (take (length pa) s)" by simp
      then show ?thesis by (rule list_all2_append)
    next
      case False
      then have "take (length pa) s = s" "drop (length pa) s = []" "length s < length pa" by simp_all
      then show ?thesis
        by (auto dest!: list_all2_lengthD)
    qed
    ultimately show ?thesis by simp
  qed
  show ?case
    by (simp add: Seq.IH(1)[OF a] Seq.IH(2)[OF b] ps split add.commute)
qed simp_all

lemma template_model_id:
  "template (Seq (lit_i (py ''v2-'')) (Seq (rep 8 (Chr is_hex))
       (Seq (rep 3 (Seq (lit_i (py ''-'')) (rep 4 (Chr is_hex))))
         (Seq (lit_i (py ''-'')) (rep 12 (Chr is_hex)))))) = Some id_template"
  by (simp add: py_def id_template_def eval_nat_numeral)

lemma length_id_template: "length id_template = 39"
  by (simp add: id_template_def)

lemma is_model_id_length: "is_model_id m \<Longrightarrow> length m = 39"
  by (auto simp: is_model_id_def length_id_template dest: list_all2_lengthD)

lemma rmatch_model_id:
  "rmatch model_id_rx (s, g) k =
     (if is_model_id (take 39 s) then k (drop 39 s, Some (take 39 s)) else None)"
proof -
  have "rmatch model_id_rx (s, g) k =
      (if list_all2 (\<lambda>p c. p c) id_template (take (length id_template) s)
       then (\<lambda>(s', g'). k (s', Some (take (length s - length s') s))) (drop (length id_template) s, g)
       else None)"
    unfolding model_id_rx_def rmatch.simps(9)
    by (rule rmatch_template[OF template_model_id])
  also have "\<dots> = (if is_model_id (take 39 s) then k (drop 39 s, Some (take 39 s)) else None)"
  proof (cases "is_model_id (take 39 s)")
    case True
    then have "length (take 39 s) = 39" by (rule is_model_id_length)
    then have "39 \<le> length s" by simp
    then have "length s - (length s - 39) = 39" by simp
    with True show ?thesis by (simp add: length_id_template is_model_id_def)
  next
    case False
    then show ?thesis by (simp add: length_id_template is_model_id_def)
  qed
  finally show ?thesis .
qed

lemma match_at_model_id:
  "match_at model_id_rx s =
     (if is_model_id (take 39 s) then Some (take 39 s, Some (take 39 s), drop 39 s) else None)"
proof (cases "is_model_id (take 39 s)")
  case True
  then have "length (take 39 s) = 39" by (rule is_model_id_length)
  then have "39 \<le> length s" by simp
  then have "length s - (length s - 39) = 39" by simp
  with True show ?thesis by (simp add: match_at_def rmatch_model_id)
next
  case False
  then show ?thesis by (simp add: match_at_def rmatch_model_id)
qed

lemma finditer_first:
  "finditer r s = (m, g) # rest \<Longrightarrow> \<exists>pre t tl. s = pre @ t \<and> match_at r t = Some (m, g, tl)"
proof (induction s)
  case Nil
  then show ?case by simp
next
  case (Cons c cs)
  show ?case
  proof (cases "match_at r (c # cs)")
    case None
    with Cons.prems have "finditer r cs = (m, g) # rest" by simp
    from Cons.IH[OF this] obtain pre t tl where "cs = pre @ t" "match_at r t = Some (m, g, tl)"
      by blast
    then have "c # cs = (c # pre) @ t \<and> match_at r t = Some (m, g, tl)" by simp
    then show ?thesis by blast
  next
    case (Some x)
    with Cons.prems obtain tl where "match_at r (c # cs) = Some (m, g, tl)"
      by (cases x) auto
    then have "c # cs = [] @ (c # cs) \<and> match_at r (c # cs) = Some (m, g, tl)" by simp
    then show ?thesis by blast
  qed
qed

lemma extract_model_id_Some:
  assumes "extract_model_id s = Some i"
  shows "is_model_id i \<and> (\<exists>pre post. s = pre @ i @ post)"
proof -
  from assms obtain m rest where f: "finditer model_id_rx s = (m, Some i) # rest"
    by (auto simp: extract_model_id_def search_def split: list.splits)
  from finditer_first[OF f] obtain pre t tl where s: "s = pre @ t"
    and m: "match_at model_id_rx t = Some (m, Some i, tl)" by blast
  from m have i: "is_model_id (take 39 t)" "i = take 39 t"
    by (auto simp: match_at_model_id split: if_splits)
  have "s = pre @ i @ drop 39 t" using s i(2) by simp
  with i show ?thesis by blast
qed

lemma strip_substring: "\<exists>a b. s = a @ strip s @ b"
proof -
  define u where "u = dropWhile isspace s"
  have "strip s @ rev (takeWhile isspace (rev u)) =
      rev (takeWhile isspace (rev u) @ dropWhile isspace (rev u))"
    by (simp only: strip_def u_def rev_append)
  also have "\<dots> = u" by (simp only: takeWhile_dropWhile_id rev_rev_ident)
  finally have "u = strip s @ rev (takeWhile isspace (rev u))" by simp
  moreover have "s = takeWhile isspace s @ u" by (simp add: u_def)
  ultimately have "s = takeWhile isspace s @ strip s @ rev (takeWhile isspace (rev u))" by simp
  then show ?thesis by blast
qed

lemma no_model_id:
  assumes "\<not> contains_model_id user_input"
  shows "extract_model_id (strip user_input) = None"
proof (rule ccontr)
  assume "extract_model_id (strip user_input) \<noteq> None"
  then obtain i where "extract_model_id (strip user_input) = Some i" by auto
  from extract_model_id_Some[OF this] obtain pre post where
    i: "is_model_id i" and s: "strip user_input = pre @ i @ post" by blast
  from strip_substring obtain a b where "user_input = a @ strip user_input @ b" by blast
  with s have "user_input = (a @ pre) @ i @ (post @ b)" by simp
  with i have "contains_model_id user_input" unfolding contains_model_id_def by blast
  with assms show False by simp
qed

lemma guidance_nonempty: "guidance \<noteq> []"
  by (simp add: guidance_def py_def)

text \<open>
  Claim C4. When the trimmed input is not an absolute HTTP(S) URL and the input holds
  no model identifier, the resolver requests no page and logs nothing, and raises the
  error that carries the guidance text, which is not empty.
\<close>

theorem no_url_no_identifier:
  assumes "\<not> is_url env (strip user_input)" and "\<not> contains_model_id user_input"
  shows "resolve_to_glb_url env user_input = ([], Inl (ValueError guidance)) \<and> guidance \<noteq> []"
  using assms(1) no_model_id[OF assms(2)]
  by (simp add: resolve_to_glb_url_def from_model_id_def guidance_nonempty)

lemma contains_model_id_length: "contains_model_id s \<Longrightarrow> 39 \<le> length s"
  by (auto simp: contains_model_id_def dest: is_model_id_length)

text \<open>The definitions that evaluate the resolver on a given input.\<close>

lemmas str_eval = endswith_def split_first_def lower_def lower_cp_def py_def strip_def isspace_def
  startswith_def

lemmas url_eval = is_url_def urlparse_def split_scheme_def split_netloc_def check_netloc_def
  netloc_delim_def split_once_def splitparams_def uses_params_def ascii_alpha_def
  scheme_char_def is_digit_def Let_def basename_def base_name_def url_path_ends_glb_def

lemmas resolve_eval = resolve_to_glb_url_def make_resolved_def guess_filename_from_url_def
  bind_exn_def from_model_id_def scan_page_for_glb_def raise_for_status_def fetch_error_def
  fetch_events_def requested_def requests_made_def model_page_def

lemmas rx_eval = findall0_def findall1_def match_at_def abs_glb_rx_def root_glb_rx_def
  attr_glb_rx_def http_prefix_rx_def glb_tail_rx_def ci_def not_space_quote_def not_quote_def
  is_quote_def

theorem no_url_no_identifier_witness:
  "\<not> is_url offline (strip (py ''my model, please'')) \<and>
   \<not> contains_model_id (py ''my model, please'') \<and>
   resolve_to_glb_url offline (py ''my model, please'') = ([], Inl (ValueError guidance))"
proof -
  have 1: "\<not> is_url offline (strip (py ''my model, please''))"
    by (simp add: str_eval url_eval offline_def)
  have 2: "\<not> contains_model_id (py ''my model, please'')"
    using contains_model_id_length[of "py ''my model, please''"] by (auto simp: py_def)
  from no_url_no_identifier[OF 1 2] 1 2 show ?thesis by simp
qed

lemma scan_fetch_fails:
  "fetch_error env n u = Some e \<Longrightarrow> scan_page_for_glb env n u = (fetch_events u, Inl e)"
  by (auto simp: fetch_error_def scan_page_for_glb_def fetch_events_def bind_exn_def Let_def
      split: sum.splits)

lemma extract_model_id_nonempty: "extract_model_id s = Some i \<Longrightarrow> i \<noteq> []"
  using extract_model_id_Some[of s i] is_model_id_length[of i] by auto

lemma is_url_parses: "is_url env s \<Longrightarrow> \<exists>u. urlparse env s = Inr u"
  by (auto simp: is_url_def split: sum.splits)

lemma guess_filename_parsed:
  "urlparse env g = Inr u \<Longrightarrow>
   guess_filename_from_url env g =
     Inr (if endswith (lower (base_name u)) (py ''.glb'') \<or> 46 \<in> set (base_name u)
          then base_name u else base_name u @ py ''.glb'')"
  by (simp add: guess_filename_from_url_def bind_exn_def base_name_def Let_def)

text \<open>
  Claim C2, with the test the source makes. When the trimmed input is an absolute
  HTTP(S) URL and its text before the first \<^verbatim>\<open>?\<close> ends in \<^verbatim>\<open>.glb\<close>, in any case of the
  letters, the resolver returns that trimmed input as the file URL, without a request
  and without a log line.
\<close>

theorem direct_glb_url:
  assumes "is_url env (strip user_input)"
    and "endswith (split_first 63 (lower (strip user_input))) (py ''.glb'')"
  shows "\<exists>name. resolve_to_glb_url env user_input =
           ([], Inr \<lparr>glb_url = strip user_input, filename = name\<rparr>)"
proof -
  from is_url_parses[OF assms(1)] obtain u where "urlparse env (strip user_input) = Inr u" ..
  from guess_filename_parsed[OF this] assms show ?thesis
    by (simp add: resolve_to_glb_url_def make_resolved_def bind_exn_def)
qed

theorem direct_glb_url_witness:
  "is_url offline (strip (py '' https://a.b/models/Chair.GLB?token=1 '')) \<and>
   endswith (split_first 63 (lower (strip (py '' https://a.b/models/Chair.GLB?token=1 '')))) (py ''.glb'') \<and>
   (\<exists>name. resolve_to_glb_url offline (py '' https://a.b/models/Chair.GLB?token=1 '') =
      ([], Inr \<lparr>glb_url = py ''https://a.b/models/Chair.GLB?token=1'', filename = name\<rparr>))"
proof -
  have 0: "strip (py '' https://a.b/models/Chair.GLB?token=1 '') = py ''https://a.b/models/Chair.GLB?token=1''"
    by (simp add: str_eval)
  have 1: "is_url offline (strip (py '' https://a.b/models/Chair.GLB?token=1 ''))"
    unfolding 0 by (simp add: str_eval url_eval offline_def)
  have 2: "endswith (split_first 63 (lower (strip (py '' https://a.b/models/Chair.GLB?token=1 '')))) (py ''.glb'')"
    unfolding 0 by (simp add: str_eval)
  from direct_glb_url[OF 1 2] 0 1 2 show ?thesis by simp
qed

text \<open>
  The path of \<^verbatim>\<open>https://a.b/x.glb#v1\<close> ends in \<^verbatim>\<open>.glb\<close>, its text does not: the resolver
  requests the URL as a page.
\<close>

theorem fragment_url_counterexample:
  "is_url offline (py ''https://a.b/x.glb#v1'') \<and>
   url_path_ends_glb offline (py ''https://a.b/x.glb#v1'') \<and>
   requested (fst (resolve_to_glb_url offline (py ''https://a.b/x.glb#v1''))) = [py ''https://a.b/x.glb#v1''] \<and>
   snd (resolve_to_glb_url offline (py ''https://a.b/x.glb#v1'')) =
     Inl (RequestException (py ''connection error''))"
  by (simp add: str_eval url_eval resolve_eval offline_def)


lemma resolve_Inr:
  assumes "resolve_to_glb_url env user_input = (ev, Inr res)"
  shows "\<exists>g. make_resolved env g = Inr res"
proof -
  have fm: "\<And>s ev0. from_model_id env s ev0 = (ev, Inr res) \<Longrightarrow> \<exists>g. make_resolved env g = Inr res"
    by (auto simp: from_model_id_def split: option.splits if_splits prod.splits sum.splits)
  from assms show ?thesis
    by (auto simp: resolve_to_glb_url_def Let_def dest: fm
        split: option.splits if_splits prod.splits sum.splits)
qed

lemma endswith_append_self: "endswith (lower (n @ py ''.glb'')) (py ''.glb'')"
  by (simp add: endswith_def lower_def py_def lower_cp_def)

lemma base_name_nonempty: "base_name u \<noteq> []"
  by (simp add: base_name_def py_def)

text \<open>
  Claim C10, with the rule the source applies. The file name of every result of the
  resolver is not empty; it is the last segment of the path of the file URL
  (\<^verbatim>\<open>model.glb\<close> when that segment is empty), kept when it ends in \<^verbatim>\<open>.glb\<close> or contains a
  dot, and followed by \<^verbatim>\<open>.glb\<close> otherwise. So it ends in \<^verbatim>\<open>.glb\<close> exactly when the segment
  does or has no dot.
\<close>

theorem resolved_filename:
  assumes "resolve_to_glb_url env user_input = (ev, Inr res)"
  shows "filename res \<noteq> [] \<and>
         (\<exists>u. urlparse env (glb_url res) = Inr u \<and>
            filename res =
              (if endswith (lower (base_name u)) (py ''.glb'') then base_name u
               else if 46 \<in> set (base_name u) then base_name u
               else base_name u @ py ''.glb'') \<and>
            (endswith (lower (filename res)) (py ''.glb'') \<longleftrightarrow>
               endswith (lower (base_name u)) (py ''.glb'') \<or> 46 \<notin> set (base_name u)))"
proof -
  from resolve_Inr[OF assms] obtain g where g: "make_resolved env g = Inr res" ..
  then obtain u where u: "urlparse env g = Inr u"
    by (auto simp: make_resolved_def guess_filename_from_url_def bind_exn_def split: sum.splits)
  from g guess_filename_parsed[OF u] have res: "glb_url res = g"
    "filename res = (if endswith (lower (base_name u)) (py ''.glb'') \<or> 46 \<in> set (base_name u)
          then base_name u else base_name u @ py ''.glb'')"
    by (auto simp: make_resolved_def bind_exn_def)
  show ?thesis
    using res u base_name_nonempty[of u] endswith_append_self[of "base_name u"]
    by auto
qed

theorem resolved_filename_witness:
  "resolve_to_glb_url offline (py ''https://a.b/models/chair#v1.glb'') =
     ([], Inr \<lparr>glb_url = py ''https://a.b/models/chair#v1.glb'', filename = py ''chair.glb''\<rparr>) \<and>
   (\<exists>u. urlparse offline (py ''https://a.b/models/chair#v1.glb'') = Inr u \<and> base_name u = py ''chair'')"
proof -
  have 1: "resolve_to_glb_url offline (py ''https://a.b/models/chair#v1.glb'') =
     ([], Inr \<lparr>glb_url = py ''https://a.b/models/chair#v1.glb'', filename = py ''chair.glb''\<rparr>)"
    by (simp add: str_eval url_eval resolve_eval offline_def)
  have 2: "\<And>u. urlparse offline (py ''https://a.b/models/chair#v1.glb'') = Inr u \<Longrightarrow> base_name u = py ''chair''"
    by (auto simp add: str_eval url_eval offline_def)
  from resolved_filename[OF 1] 1 2 show ?thesis by auto
qed

text \<open>
  A page that links to \<^verbatim>\<open>https://cdn.example.com/get.php?f=chair.glb\<close>: the link is the file
  URL, the last segment of its path is \<^verbatim>\<open>get.php\<close>, and that is the file name.
\<close>

theorem filename_keeps_extension_counterexample:
  "resolve_to_glb_url query_link (py ''https://example.com/share/chair'') =
     (fetch_events (py ''https://example.com/share/chair''),
      Inr \<lparr>glb_url = py ''https://cdn.example.com/get.php?f=chair.glb'', filename = py ''get.php''\<rparr>) \<and>
   \<not> endswith (lower (py ''get.php'')) (py ''.glb'')"
  by (simp add: query_link_def query_link_html_def offline_def resolve_eval rx_eval str_eval
      url_eval return_normalized_def normalize_eval)

lemma id_template_unfold:
  "id_template =
     [ci 118, ci 50, ci 45, is_hex, is_hex, is_hex, is_hex, is_hex, is_hex, is_hex, is_hex,
      ci 45, is_hex, is_hex, is_hex, is_hex, ci 45, is_hex, is_hex, is_hex, is_hex,
      ci 45, is_hex, is_hex, is_hex, is_hex,
      ci 45, is_hex, is_hex, is_hex, is_hex, is_hex, is_hex, is_hex, is_hex, is_hex, is_hex,
      is_hex, is_hex]"
  by (simp add: id_template_def eval_nat_numeral)

lemmas id_eval = extract_model_id_def search_def match_at_model_id is_model_id_def
  id_template_unfold ci_def is_hex_def is_digit_def

lemma extract_bare: "extract_model_id (py ''v2-019a7474-3f2a-7a7d-9282-cc5599095a44'') =
    Some (py ''v2-019a7474-3f2a-7a7d-9282-cc5599095a44'')"
  by (simp add: id_eval py_def)

lemma extract_share: "extract_model_id share_url = Some (py ''v2-019a7474-3f2a-7a7d-9282-cc5599095a44'')"
  by (simp add: id_eval py_def share_url_def)

lemma scan_share: "scan_page_for_glb share_only n share_url = (fetch_events share_url, Inr None)"
  by (simp add: share_only_def offline_def resolve_eval rx_eval py_def share_url_def isspace_def)

lemma scan_not_modified: "scan_page_for_glb not_modified n share_url = (fetch_events share_url, Inr None)"
  by (simp add: not_modified_def offline_def resolve_eval rx_eval py_def share_url_def)

lemma is_url_share: "is_url env share_url"
  by (simp add: share_url_def str_eval url_eval)

lemma not_direct_share: "\<not> endswith (split_first 63 (lower share_url)) (py ''.glb'')"
  by (simp add: share_url_def str_eval)

lemma strip_share: "strip share_url = share_url"
  by (simp add: share_url_def str_eval)

lemma requests_made_fetch: "requests_made (fetch_events u) = 1"
  by (simp add: requests_made_def fetch_events_def)

lemma scan_requests_made: "scan_page_for_glb env n u = (ev, r) \<Longrightarrow> requests_made ev = 1"
  by (auto simp: scan_page_for_glb_def Let_def return_normalized_def join_and_return_def
      requests_made_def split: sum.splits list.splits if_splits)

text \<open>
  Claim C3, for the failures the source raises on: an error of the transport, or a 4xx
  or 5xx status. When the fetch of the pasted URL, the first request, fails, the
  resolver ends with that error after that one request; when the fetch of the model
  page fails, be it the first request because the input is no URL or the second
  because the scan of the pasted URL found nothing, the resolver ends with that error
  and requests nothing more. The pasted URL may be the model page itself.
\<close>

theorem fetch_failure_is_final:
  assumes "s = strip user_input"
  shows "(is_url env s \<and> \<not> endswith (split_first 63 (lower s)) (py ''.glb'') \<and>
          fetch_error env 0 s = Some e \<longrightarrow>
            resolve_to_glb_url env user_input = (fetch_events s, Inl e)) \<and>
         (\<not> is_url env s \<and> extract_model_id s = Some i \<and>
          fetch_error env 0 (model_page i) = Some e \<longrightarrow>
            resolve_to_glb_url env user_input = (fetch_events (model_page i), Inl e)) \<and>
         (is_url env s \<and> \<not> endswith (split_first 63 (lower s)) (py ''.glb'') \<and>
          (scan_page_for_glb env 0 s = (ev2, Inr None) \<or>
           scan_page_for_glb env 0 s = (ev2, Inr (Some []))) \<and>
          extract_model_id s = Some i \<and> fetch_error env 1 (model_page i) = Some e \<longrightarrow>
            resolve_to_glb_url env user_input = (ev2 @ fetch_events (model_page i), Inl e))"
proof (intro conjI impI)
  assume "is_url env s \<and> \<not> endswith (split_first 63 (lower s)) (py ''.glb'') \<and>
          fetch_error env 0 s = Some e"
  then show "resolve_to_glb_url env user_input = (fetch_events s, Inl e)"
    using assms by (simp add: resolve_to_glb_url_def scan_fetch_fails)
next
  assume h: "\<not> is_url env s \<and> extract_model_id s = Some i \<and>
          fetch_error env 0 (model_page i) = Some e"
  then have "i \<noteq> []" using extract_model_id_nonempty by blast
  with h show "resolve_to_glb_url env user_input = (fetch_events (model_page i), Inl e)"
    using assms
    by (simp add: resolve_to_glb_url_def from_model_id_def scan_fetch_fails requests_made_def)
next
  assume h: "is_url env s \<and> \<not> endswith (split_first 63 (lower s)) (py ''.glb'') \<and>
          (scan_page_for_glb env 0 s = (ev2, Inr None) \<or>
           scan_page_for_glb env 0 s = (ev2, Inr (Some []))) \<and>
          extract_model_id s = Some i \<and> fetch_error env 1 (model_page i) = Some e"
  then have i: "i \<noteq> []" using extract_model_id_nonempty by blast
  from h have "requests_made ev2 = 1" using scan_requests_made by blast
  with h have "scan_page_for_glb env (requests_made ev2) (model_page i) =
      (fetch_events (model_page i), Inl e)"
    by (simp add: scan_fetch_fails)
  with h i show "resolve_to_glb_url env user_input = (ev2 @ fetch_events (model_page i), Inl e)"
    using assms by (auto simp: resolve_to_glb_url_def from_model_id_def)
qed

theorem fetch_failure_is_final_witness:
  "resolve_to_glb_url offline (py ''https://a.b/page'') =
     (fetch_events (py ''https://a.b/page''), Inl (RequestException (py ''connection error''))) \<and>
   resolve_to_glb_url offline (py ''v2-019a7474-3f2a-7a7d-9282-cc5599095a44'') =
     (fetch_events (model_page (py ''v2-019a7474-3f2a-7a7d-9282-cc5599095a44'')),
      Inl (RequestException (py ''connection error''))) \<and>
   resolve_to_glb_url share_only share_url =
     (fetch_events share_url @ fetch_events (model_page (py ''v2-019a7474-3f2a-7a7d-9282-cc5599095a44'')),
      Inl (RequestException (py ''timed out''))) \<and>
   resolve_to_glb_url first_only (model_page (py ''v2-019a7474-3f2a-7a7d-9282-cc5599095a44'')) =
     (fetch_events (model_page (py ''v2-019a7474-3f2a-7a7d-9282-cc5599095a44'')) @
      fetch_events (model_page (py ''v2-019a7474-3f2a-7a7d-9282-cc5599095a44'')),
      Inl (RequestException (py ''timed out'')))"
proof -
  let ?id = "py ''v2-019a7474-3f2a-7a7d-9282-cc5599095a44''"
  have a: "py ''https://a.b/page'' = strip (py ''https://a.b/page'')"
    "is_url offline (py ''https://a.b/page'')"
    "\<not> endswith (split_first 63 (lower (py ''https://a.b/page''))) (py ''.glb'')"
    "fetch_error offline 0 (py ''https://a.b/page'') = Some (RequestException (py ''connection error''))"
    by (simp_all add: str_eval url_eval fetch_error_def offline_def)
  have b: "?id = strip ?id"
    "\<not> is_url offline ?id"
    "fetch_error offline 0 (model_page ?id) = Some (RequestException (py ''connection error''))"
    by (simp_all add: str_eval url_eval fetch_error_def offline_def)
  have c: "fetch_error share_only 1 (model_page ?id) = Some (RequestException (py ''timed out''))"
    by (simp add: fetch_error_def share_only_def offline_def model_page_def share_url_def py_def)
  have d: "model_page ?id = strip (model_page ?id)"
    "is_url first_only (model_page ?id)"
    "\<not> endswith (split_first 63 (lower (model_page ?id))) (py ''.glb'')"
    "fetch_error first_only 1 (model_page ?id) = Some (RequestException (py ''timed out''))"
    by (simp_all add: model_page_def str_eval url_eval fetch_error_def first_only_def offline_def)
  have d5: "scan_page_for_glb first_only 0 (model_page ?id) = (fetch_events (model_page ?id), Inr None)"
    by (simp add: first_only_def offline_def resolve_eval rx_eval py_def isspace_def)
  have d6: "extract_model_id (model_page ?id) = Some ?id"
    by (simp add: id_eval py_def model_page_def)
  show ?thesis
    using fetch_failure_is_final[OF a(1), where env = offline
        and e = "RequestException (py ''connection error'')"] a(2,3,4)
      fetch_failure_is_final[OF b(1), where env = offline and i = ?id
        and e = "RequestException (py ''connection error'')"] b(2,3) extract_bare
      fetch_failure_is_final[OF strip_share[symmetric], where env = share_only
        and ?ev2.0 = "fetch_events share_url" and i = ?id
        and e = "RequestException (py ''timed out'')"]
      is_url_share not_direct_share scan_share extract_share c
      fetch_failure_is_final[OF d(1), where env = first_only
        and ?ev2.0 = "fetch_events (model_page ?id)" and i = ?id
        and e = "RequestException (py ''timed out'')"] d(2,3,4) d5 d6
    by simp
qed

text \<open>
  A 304 answer is not a 2xx status, yet \<^verbatim>\<open>raise_for_status\<close> lets it pass: the empty page
  is scanned, the resolver goes on to the model page of the identifier in the URL, and
  ends with the guidance error, not with an error of the fetch.
\<close>

theorem redirect_status_counterexample:
  "requests_get not_modified 0 share_url =
     Inr \<lparr>status_code = 304, resp_url = share_url, resp_text = []\<rparr> \<and>
   requested (fst (resolve_to_glb_url not_modified share_url)) =
     [share_url, model_page (py ''v2-019a7474-3f2a-7a7d-9282-cc5599095a44'')] \<and>
   snd (resolve_to_glb_url not_modified share_url) = Inl (ValueError guidance)"
proof -
  have 1: "scan_page_for_glb not_modified 1 (model_page (py ''v2-019a7474-3f2a-7a7d-9282-cc5599095a44''))
      = (fetch_events (model_page (py ''v2-019a7474-3f2a-7a7d-9282-cc5599095a44'')), Inr None)"
    by (simp add: not_modified_def offline_def resolve_eval rx_eval)
  have 2: "py ''v2-019a7474-3f2a-7a7d-9282-cc5599095a44'' \<noteq> []" by (simp add: py_def)
  show ?thesis
    using is_url_share[of not_modified] not_direct_share scan_not_modified extract_share 1 2
    by (simp add: resolve_to_glb_url_def from_model_id_def strip_share requested_def
        requests_made_def fetch_events_def)
       (simp add: not_modified_def offline_def)
qed

text \<open>
  Claim C1 at a page whose only link is the relative \<^verbatim>\<open>href="assets/model.glb"\<close>. The page
  has no absolute URL, and the attribute value joined against the page URL is
  \<^verbatim>\<open>https://example.com/gallery/assets/model.glb\<close>; but the pattern for rooted paths
  matches \<^verbatim>\<open>/model.glb\<close> inside the value, and the resolver returns
  \<^verbatim>\<open>https://example.com/model.glb\<close>.
\<close>

theorem relative_link_joined_at_root:
  "findall0 abs_glb_rx gallery_html = [] \<and>
   findall1 root_glb_rx gallery_html = [py ''/model.glb''] \<and>
   findall1 attr_glb_rx gallery_html = [py ''assets/model.glb''] \<and>
   urljoin gallery (py ''https://example.com/gallery/page'') (py ''assets/model.glb'') =
     Inr (py ''https://example.com/gallery/assets/model.glb'') \<and>
   resolve_to_glb_url gallery (py ''https://example.com/gallery/page'') =
     (fetch_events (py ''https://example.com/gallery/page''),
      Inr \<lparr>glb_url = py ''https://example.com/model.glb'', filename = py ''model.glb''\<rparr>)"
  by (simp add: gallery_def gallery_html_def join_https_def offline_def resolve_eval rx_eval
      str_eval url_eval return_normalized_def join_and_return_def normalize_eval)

end
